theory Spec2Isabelle
  imports Complex_Main "HOL-Library.AList" "HOL-Library.Sublist"
begin

section \<open>JavaScript values\<close>

text \<open>
  The values that flow through \<^verbatim>\<open>APIMessage.js\<close>: primitives, arrays, plain objects
  (their own properties, in insertion order), byte buffers and functions. A function
  value carries only its \<^verbatim>\<open>name\<close> property; it is never called by the model.
  Numbers are rationals and \<^verbatim>\<open>NaN\<close>; strings are character lists.
\<close>

datatype jsval =
    Undefined
  | Null
  | Bool bool
  | Num rat
  | NaN
  | Str string
  | Arr "jsval list"
  | Obj "(string \<times> jsval) list"
  | Buffer string
  | Func string

type_synonym props = "(string \<times> jsval) list"

text \<open>Every \<^verbatim>\<open>throw\<close> and every rejected promise is a value of this type.\<close>

datatype error =
    RangeError string
  | TypeError
  | Rejected string

definition bindE :: "error + 'a \<Rightarrow> ('a \<Rightarrow> error + 'b) \<Rightarrow> error + 'b" where
  "bindE m f = (case m of Inl e \<Rightarrow> Inl e | Inr x \<Rightarrow> f x)"

text \<open>\<^verbatim>\<open>xs.map(f)\<close> where \<^verbatim>\<open>f\<close> may throw: the first throw ends the loop.\<close>

fun mapE :: "('a \<Rightarrow> error + 'b) \<Rightarrow> 'a list \<Rightarrow> error + 'b list" where
  "mapE f [] = Inr []"
| "mapE f (x # xs) = bindE (f x) (\<lambda>y. bindE (mapE f xs) (\<lambda>ys. Inr (y # ys)))"

fun typeof :: "jsval \<Rightarrow> string" where
  "typeof Undefined = ''undefined''"
| "typeof Null = ''object''"
| "typeof (Bool b) = ''boolean''"
| "typeof (Num r) = ''number''"
| "typeof NaN = ''number''"
| "typeof (Str s) = ''string''"
| "typeof (Arr xs) = ''object''"
| "typeof (Obj ps) = ''object''"
| "typeof (Buffer b) = ''object''"
| "typeof (Func n) = ''function''"

text \<open>ToBoolean, as used by \<^verbatim>\<open>if (x)\<close>, \<^verbatim>\<open>x || y\<close> and \<^verbatim>\<open>Boolean(x)\<close>.\<close>

fun truthy :: "jsval \<Rightarrow> bool" where
  "truthy Undefined = False"
| "truthy Null = False"
| "truthy (Bool b) = b"
| "truthy (Num r) = (r \<noteq> 0)"
| "truthy NaN = False"
| "truthy (Str s) = (s \<noteq> [])"
| "truthy v = True"

definition js_or :: "jsval \<Rightarrow> jsval \<Rightarrow> jsval" where
  "js_or a b = (if truthy a then a else b)"

text \<open>\<^verbatim>\<open>a ?? b\<close>\<close>

definition nullish :: "jsval \<Rightarrow> jsval \<Rightarrow> jsval" where
  "nullish a b = (if a = Undefined \<or> a = Null then b else a)"

fun isArray :: "jsval \<Rightarrow> bool" where
  "isArray (Arr xs) = True"
| "isArray v = False"

definition Number_isInteger :: "jsval \<Rightarrow> bool" where
  "Number_isInteger v = (case v of Num r \<Rightarrow> of_int \<lfloor>r\<rfloor> = r | _ \<Rightarrow> False)"

text \<open>Reading an own property of an object's property list; an absent key reads \<^verbatim>\<open>undefined\<close>.\<close>

definition lookup :: "props \<Rightarrow> string \<Rightarrow> jsval" where
  "lookup ps k = (case map_of ps k of None \<Rightarrow> Undefined | Some v \<Rightarrow> v)"

text \<open>
  \<^verbatim>\<open>v.k\<close> for the property names this file reads (\<^verbatim>\<open>messageReference\<close>,
  \<^verbatim>\<open>failIfNotExists\<close>, \<^verbatim>\<open>files\<close>, \<^verbatim>\<open>path\<close>, \<^verbatim>\<open>attachment\<close>, \<^verbatim>\<open>name\<close>,
  \<^verbatim>\<open>pipe\<close>): \<^verbatim>\<open>undefined\<close> and \<^verbatim>\<open>null\<close> throw a TypeError, an object answers from its
  own properties, a function has a \<^verbatim>\<open>name\<close>, everything else reads \<^verbatim>\<open>undefined\<close>.
\<close>

fun get :: "jsval \<Rightarrow> string \<Rightarrow> error + jsval" where
  "get Undefined k = Inl TypeError"
| "get Null k = Inl TypeError"
| "get (Obj ps) k = Inr (lookup ps k)"
| "get (Func n) k = Inr (if k = ''name'' then Str n else Undefined)"
| "get v k = Inr Undefined"

fun show_nat :: "nat \<Rightarrow> string" where
  "show_nat n =
     (if n < 10 then [char_of (48 + n)]
      else show_nat (n div 10) @ [char_of (48 + n mod 10)])"

definition indexed :: "jsval list \<Rightarrow> props" where
  "indexed xs = zip (map show_nat [0..<length xs]) xs"

text \<open>\<^verbatim>\<open>[...v]\<close> and \<^verbatim>\<open>push(...v)\<close>: the elements of an iterable, a TypeError otherwise.\<close>

fun spread_iter :: "jsval \<Rightarrow> error + jsval list" where
  "spread_iter (Arr xs) = Inr xs"
| "spread_iter (Str s) = Inr (map (\<lambda>c. Str [c]) s)"
| "spread_iter (Buffer b) = Inr (map (\<lambda>c. Num (of_nat (of_char c :: nat))) b)"
| "spread_iter v = Inl TypeError"

text \<open>\<^verbatim>\<open>{ ...v }\<close>: the own enumerable properties; a primitive without any gives \<^verbatim>\<open>{}\<close>.\<close>

fun spread_obj :: "jsval \<Rightarrow> props" where
  "spread_obj (Obj ps) = ps"
| "spread_obj (Arr xs) = indexed xs"
| "spread_obj (Str s) = indexed (map (\<lambda>c. Str [c]) s)"
| "spread_obj (Buffer b) = indexed (map (\<lambda>c. Num (of_nat (of_char c :: nat))) b)"
| "spread_obj v = []"

text \<open>
  ToString, as a template literal applies it. The decimal rendering of a number is
  floating-point formatting and stays a parameter.
\<close>

fun join_comma :: "string list \<Rightarrow> string" where
  "join_comma [] = []"
| "join_comma [s] = s"
| "join_comma (s # ss) = s @ '','' @ join_comma ss"

fun to_str :: "(rat \<Rightarrow> string) \<Rightarrow> jsval \<Rightarrow> string" where
  "to_str ns Undefined = ''undefined''"
| "to_str ns Null = ''null''"
| "to_str ns (Bool b) = (if b then ''true'' else ''false'')"
| "to_str ns (Num r) = ns r"
| "to_str ns NaN = ''NaN''"
| "to_str ns (Str s) = s"
| "to_str ns (Arr xs) =
     join_comma (map (\<lambda>x. if x = Undefined \<or> x = Null then [] else to_str ns x) xs)"
| "to_str ns (Obj ps) = ''[object Object]''"
| "to_str ns (Buffer b) = b"
| "to_str ns (Func n) = ''function '' @ n @ ''() { [native code] }''"

section \<open>Targets, collaborators and the builder instance\<close>

text \<open>
  The classes that the four getters of \<^verbatim>\<open>APIMessage\<close> test with \<^verbatim>\<open>instanceof\<close>; any
  other class (a text channel, a DM channel, ...) is \<open>OtherClass\<close>.
\<close>

datatype js_class =
    Webhook | WebhookClient | User | GuildMember | Message
  | Interaction | InteractionWebhook | OtherClass string

text \<open>
  A send target, reduced to what \<^verbatim>\<open>APIMessage\<close> reads from it: the classes on its prototype
  chain, \<^verbatim>\<open>target.name\<close>, \<^verbatim>\<open>target.flags.bitfield\<close>,
  \<^verbatim>\<open>target.client.options.allowedMentions\<close>, and the \<^verbatim>\<open>resolveID\<close> functions of
  \<^verbatim>\<open>target.messages\<close> and \<^verbatim>\<open>target.channel.messages\<close> (\<open>None\<close> when the target has no such
  collection, so that calling \<^verbatim>\<open>resolveID\<close> on it throws a TypeError).
\<close>

record target =
  classes :: "js_class list"
  target_name :: jsval
  flags_bitfield :: jsval
  client_allowedMentions :: jsval
  messages :: "(jsval \<Rightarrow> jsval) option"
  channel_messages :: "(jsval \<Rightarrow> jsval) option"

definition instanceof :: "target \<Rightarrow> js_class \<Rightarrow> bool" where
  "instanceof t c = (c \<in> set (classes t))"

text \<open>
  The modules \<^verbatim>\<open>APIMessage.js\<close> requires and that are not part of the sources at hand
  (\<^verbatim>\<open>Util\<close>, \<^verbatim>\<open>DataResolver\<close>, \<^verbatim>\<open>MessageEmbed\<close>, \<^verbatim>\<open>BaseMessageComponent\<close>,
  \<^verbatim>\<open>MessageFlags\<close>, \<^verbatim>\<open>Constants\<close>) are parameters of the model:
  \<^item> \<open>verifyString x\<close> is \<^verbatim>\<open>Util.verifyString(x, RangeError, 'MESSAGE_CONTENT_TYPE', false)\<close>;
  \<^item> \<open>splitMessage text splitOptions\<close> is \<^verbatim>\<open>Util.splitMessage\<close>;
  \<^item> \<open>cloneObject x\<close> is \<^verbatim>\<open>Util.cloneObject(x)\<close>, the own properties of the fresh object;
  \<^item> \<open>embed_toJSON e\<close> is \<^verbatim>\<open>new MessageEmbed(e).toJSON()\<close>;
  \<^item> \<open>component_toJSON c\<close> is \<^verbatim>\<open>BaseMessageComponent.create(c).toJSON()\<close>;
  \<^item> \<open>flags_resolve f\<close> is \<^verbatim>\<open>new MessageFlags(f).bitfield\<close>;
  \<^item> \<open>EPHEMERAL\<close> is \<^verbatim>\<open>MessageFlags.FLAGS.EPHEMERAL\<close>, \<open>ACTION_ROW\<close> is
    \<^verbatim>\<open>MessageComponentTypes.ACTION_ROW\<close>;
  \<^item> \<open>basename p\<close> is \<^verbatim>\<open>Util.basename(p)\<close>, \<open>load a\<close> is the settled result of
    \<^verbatim>\<open>DataResolver.resolveFile(a)\<close>;
  \<^item> \<open>number_to_string\<close> renders a number inside a template literal.
\<close>

record deps =
  verifyString :: "jsval \<Rightarrow> error + jsval"
  cleanCodeBlockContent :: "string \<Rightarrow> string"
  splitMessage :: "string \<Rightarrow> props \<Rightarrow> error + string list"
  cloneObject :: "jsval \<Rightarrow> error + props"
  embed_toJSON :: "jsval \<Rightarrow> error + jsval"
  component_toJSON :: "jsval \<Rightarrow> error + jsval"
  flags_resolve :: "jsval \<Rightarrow> error + jsval"
  EPHEMERAL :: jsval
  ACTION_ROW :: jsval
  basename :: "jsval \<Rightarrow> error + jsval"
  load :: "jsval \<Rightarrow> error + jsval"
  number_to_string :: "rat \<Rightarrow> string"

text \<open>
  An \<^verbatim>\<open>APIMessage\<close>. Its options are an object, as \<^verbatim>\<open>create\<close> passes one to the constructor:
  \<open>options\<close> holds its own properties. \<open>data\<close> and \<open>files\<close> are \<open>None\<close> for \<^verbatim>\<open>null\<close>.
\<close>

record apimessage =
  target :: target
  options :: props
  data :: "props option"
  files :: "jsval list option"

definition new_APIMessage :: "target \<Rightarrow> props \<Rightarrow> apimessage" where
  "new_APIMessage t opts = \<lparr>target = t, options = opts, data = None, files = None\<rparr>"

definition isWebhook :: "apimessage \<Rightarrow> bool" where
  "isWebhook this = (instanceof (target this) Webhook \<or> instanceof (target this) WebhookClient)"

definition isUser :: "apimessage \<Rightarrow> bool" where
  "isUser this = (instanceof (target this) User \<or> instanceof (target this) GuildMember)"

definition isMessage :: "apimessage \<Rightarrow> bool" where
  "isMessage this = instanceof (target this) Message"

definition isInteraction :: "apimessage \<Rightarrow> bool" where
  "isInteraction this =
     (instanceof (target this) Interaction \<or> instanceof (target this) InteractionWebhook)"

section \<open>makeContent\<close>

definition fence_open :: "string \<Rightarrow> string" where
  "fence_open codeName = ''```'' @ codeName @ [CHR 0x0A]"

definition fence_close :: string where
  "fence_close = [CHR 0x0A] @ ''```''"

definition isSplit :: "props \<Rightarrow> bool" where
  "isSplit opts = (typeof (lookup opts ''split'') \<noteq> ''undefined'' \<and> lookup opts ''split'' \<noteq> Bool False)"

definition isCode :: "props \<Rightarrow> bool" where
  "isCode opts = (typeof (lookup opts ''code'') \<noteq> ''undefined'' \<and> lookup opts ''code'' \<noteq> Bool False)"

definition codeName :: "props \<Rightarrow> string" where
  "codeName opts = (case lookup opts ''code'' of Str s \<Rightarrow> s | _ \<Rightarrow> [])"

text \<open>
  The two assignments to \<^verbatim>\<open>splitOptions.prepend\<close> and \<^verbatim>\<open>splitOptions.append\<close> made when both
  \<^verbatim>\<open>code\<close> and \<^verbatim>\<open>split\<close> are on.
\<close>

definition inject_fence :: "deps \<Rightarrow> string \<Rightarrow> props \<Rightarrow> props" where
  "inject_fence h cn so =
     (let so1 = AList.update ''prepend''
                  (Str (to_str (number_to_string h) (js_or (lookup so ''prepend'') (Str [])) @ fence_open cn)) so
      in AList.update ''append''
           (Str (fence_close @ to_str (number_to_string h) (js_or (lookup so1 ''append'') (Str [])))) so1)"

definition makeContent :: "deps \<Rightarrow> apimessage \<Rightarrow> error + jsval" where
  "makeContent h this =
     bindE (if lookup (options this) ''content'' = Null then Inr (Str [])
            else if typeof (lookup (options this) ''content'') \<noteq> ''undefined''
            then verifyString h (lookup (options this) ''content'')
            else Inr Undefined)
       (\<lambda>content.
          case content of
            Str s \<Rightarrow>
              let splitOptions =
                    (if isSplit (options this) then spread_obj (lookup (options this) ''split'') else [])
              in if s \<noteq> [] then
                   let content1 =
                         (if isCode (options this)
                          then fence_open (codeName (options this)) @ cleanCodeBlockContent h s @ fence_close
                          else s);
                       splitOptions1 =
                         (if isCode (options this) \<and> isSplit (options this)
                          then inject_fence h (codeName (options this)) splitOptions
                          else splitOptions)
                   in if isSplit (options this)
                      then bindE (splitMessage h content1 splitOptions1) (\<lambda>cs. Inr (Arr (map Str cs)))
                      else Inr (Str content1)
                 else Inr (Str s)
          | _ \<Rightarrow> Inr content)"

section \<open>resolveData\<close>

text \<open>
  The block that opens both \<^verbatim>\<open>resolveData\<close> and \<^verbatim>\<open>resolveFiles\<close>: the embed-like inputs of
  the dialect.
\<close>

definition embedLikes :: "apimessage \<Rightarrow> error + jsval list" where
  "embedLikes this =
     (if isInteraction this \<or> isWebhook this then
        (if truthy (lookup (options this) ''embeds'')
         then spread_iter (lookup (options this) ''embeds'') else Inr [])
      else if truthy (lookup (options this) ''embed'')
      then Inr [lookup (options this) ''embed''] else Inr [])"

definition resolve_nonce :: "apimessage \<Rightarrow> error + jsval" where
  "resolve_nonce this =
     (let nonce = lookup (options this) ''nonce'' in
      if typeof nonce \<noteq> ''undefined'' then
        (if (if typeof nonce = ''number'' then \<not> Number_isInteger nonce else typeof nonce \<noteq> ''string'')
         then Inl (RangeError ''MESSAGE_NONCE_TYPE'') else Inr nonce)
      else Inr Undefined)"

text \<open>
  \<^verbatim>\<open>this.options.components?.map(...)\<close>: \<^verbatim>\<open>undefined\<close> for a nullish value, the mapped array
  for an array, and a TypeError for anything else, which has no \<^verbatim>\<open>map\<close> to call (an
  object that brings a \<^verbatim>\<open>map\<close> method of its own, as a typed array does, is outside this
  model).
\<close>

definition resolve_components :: "deps \<Rightarrow> apimessage \<Rightarrow> error + jsval" where
  "resolve_components h this =
     (case lookup (options this) ''components'' of
        Undefined \<Rightarrow> Inr Undefined
      | Null \<Rightarrow> Inr Undefined
      | Arr cs \<Rightarrow>
          bindE (mapE (\<lambda>c. component_toJSON h
                         (if isArray c then Obj [(''type'', ACTION_ROW h), (''components'', c)] else c)) cs)
            (\<lambda>js. Inr (Arr js))
      | _ \<Rightarrow> Inl TypeError)"

definition resolve_flags :: "deps \<Rightarrow> apimessage \<Rightarrow> error + jsval" where
  "resolve_flags h this =
     (if isMessage this then
        (if lookup (options this) ''flags'' \<noteq> Null \<and> lookup (options this) ''flags'' \<noteq> Undefined
         then flags_resolve h (lookup (options this) ''flags'')
         else Inr (flags_bitfield (target this)))
      else if isInteraction this \<and> truthy (lookup (options this) ''ephemeral'')
      then Inr (EPHEMERAL h)
      else Inr Undefined)"

definition selected_allowedMentions :: "apimessage \<Rightarrow> jsval" where
  "selected_allowedMentions this =
     (if typeof (lookup (options this) ''allowedMentions'') = ''undefined''
      then client_allowedMentions (target this)
      else lookup (options this) ''allowedMentions'')"

definition rename_repliedUser :: "props \<Rightarrow> props" where
  "rename_repliedUser ps =
     AList.delete ''repliedUser'' (AList.update ''replied_user'' (lookup ps ''repliedUser'') ps)"

definition resolve_allowedMentions :: "deps \<Rightarrow> apimessage \<Rightarrow> error + jsval" where
  "resolve_allowedMentions h this =
     (let allowedMentions = selected_allowedMentions this in
      if truthy allowedMentions
      then bindE (cloneObject h allowedMentions) (\<lambda>ps. Inr (Obj (rename_repliedUser ps)))
      else Inr allowedMentions)"

definition message_collection :: "apimessage \<Rightarrow> (jsval \<Rightarrow> jsval) option" where
  "message_collection this =
     (if isMessage this then channel_messages (target this) else messages (target this))"

definition resolve_message_reference :: "apimessage \<Rightarrow> error + jsval" where
  "resolve_message_reference this =
     (let reply = lookup (options this) ''reply'' in
      if typeof reply = ''object'' then
        (case message_collection this of
           None \<Rightarrow> Inl TypeError
         | Some resolveID \<Rightarrow>
             bindE (get reply ''messageReference'')
               (\<lambda>r. let message_id = resolveID r in
                    if truthy message_id then
                      bindE (get reply ''failIfNotExists'')
                        (\<lambda>f. Inr (Obj [(''message_id'', message_id),
                                        (''fail_if_not_exists'', nullish f (Bool True))]))
                    else Inr Undefined))
      else Inr Undefined)"

definition nth_or_undefined :: "jsval list \<Rightarrow> nat \<Rightarrow> jsval" where
  "nth_or_undefined xs i = (if i < length xs then xs ! i else Undefined)"

definition resolveData :: "deps \<Rightarrow> apimessage \<Rightarrow> error + apimessage" where
  "resolveData h this =
     (if data this \<noteq> None then Inr this else
      let isWebhookLike = (isInteraction this \<or> isWebhook this) in
      bindE (makeContent h this) (\<lambda>content.
      let tts = Bool (truthy (lookup (options this) ''tts'')) in
      bindE (resolve_nonce this) (\<lambda>nonce.
      bindE (embedLikes this) (\<lambda>els.
      bindE (mapE (embed_toJSON h) els) (\<lambda>embeds.
      bindE (resolve_components h this) (\<lambda>components.
      let username = (if isWebhook this
                      then js_or (lookup (options this) ''username'') (target_name (target this))
                      else Undefined);
          avatarURL = (if isWebhook this \<and> truthy (lookup (options this) ''avatarURL'')
                       then lookup (options this) ''avatarURL'' else Undefined)
      in
      bindE (resolve_flags h this) (\<lambda>flags.
      bindE (resolve_allowedMentions h this) (\<lambda>allowedMentions.
      bindE (resolve_message_reference this) (\<lambda>message_reference.
      Inr (this\<lparr>data := Some
        [(''content'', content),
         (''tts'', tts),
         (''nonce'', nonce),
         (''embed'', if \<not> isWebhookLike
                     then (if lookup (options this) ''embed'' = Null then Null
                           else nth_or_undefined embeds 0)
                     else Undefined),
         (''embeds'', if isWebhookLike then Arr embeds else Undefined),
         (''components'', components),
         (''username'', username),
         (''avatar_url'', avatarURL),
         (''allowed_mentions'',
            if typeof content = ''undefined'' \<and> typeof message_reference = ''undefined''
            then Undefined else allowedMentions),
         (''flags'', flags),
         (''message_reference'', message_reference),
         (''attachments'', lookup (options this) ''attachments'')]\<rparr>))))))))))"

text \<open>
  The object literal that \<^verbatim>\<open>resolveData\<close> stores in \<^verbatim>\<open>this.data\<close>, as a function of the values
  computed before it.
\<close>

definition payload ::
  "apimessage \<Rightarrow> jsval \<Rightarrow> jsval \<Rightarrow> jsval list \<Rightarrow> jsval \<Rightarrow> jsval \<Rightarrow> jsval \<Rightarrow> jsval \<Rightarrow> props" where
  "payload this content nonce embeds components flags allowedMentions message_reference =
     [(''content'', content),
      (''tts'', Bool (truthy (lookup (options this) ''tts''))),
      (''nonce'', nonce),
      (''embed'', if \<not> (isInteraction this \<or> isWebhook this)
                  then (if lookup (options this) ''embed'' = Null then Null
                        else nth_or_undefined embeds 0)
                  else Undefined),
      (''embeds'', if isInteraction this \<or> isWebhook this then Arr embeds else Undefined),
      (''components'', components),
      (''username'', if isWebhook this
                     then js_or (lookup (options this) ''username'') (target_name (target this))
                     else Undefined),
      (''avatar_url'', if isWebhook this \<and> truthy (lookup (options this) ''avatarURL'')
                       then lookup (options this) ''avatarURL'' else Undefined),
      (''allowed_mentions'',
         if typeof content = ''undefined'' \<and> typeof message_reference = ''undefined''
         then Undefined else allowedMentions),
      (''flags'', flags),
      (''message_reference'', message_reference),
      (''attachments'', lookup (options this) ''attachments'')]"

section \<open>resolveFile and resolveFiles\<close>

definition findName :: "deps \<Rightarrow> jsval \<Rightarrow> error + jsval" where
  "findName h thing =
     (if typeof thing = ''string'' then basename h thing
      else bindE (get thing ''path'')
             (\<lambda>p. if truthy p then basename h p else Inr (Str ''file.jpg'')))"

definition ownAttachment :: "jsval \<Rightarrow> error + bool" where
  "ownAttachment fileLike =
     (if typeof fileLike = ''string'' then Inr True
      else if (case fileLike of Buffer b \<Rightarrow> True | _ \<Rightarrow> False) then Inr True
      else bindE (get fileLike ''pipe'') (\<lambda>p. Inr (typeof p = ''function'')))"

definition resolveFile :: "deps \<Rightarrow> jsval \<Rightarrow> error + jsval" where
  "resolveFile h fileLike =
     bindE (ownAttachment fileLike) (\<lambda>own.
     bindE (if own then bindE (findName h fileLike) (\<lambda>n. Inr (fileLike, n))
            else bindE (get fileLike ''attachment'') (\<lambda>a.
                 bindE (get fileLike ''name'') (\<lambda>n.
                 if truthy n then Inr (a, n) else bindE (findName h a) (\<lambda>n'. Inr (a, n')))))
       (\<lambda>(attachment, name).
     bindE (load h attachment) (\<lambda>resource.
     Inr (Obj [(''attachment'', attachment), (''name'', name), (''file'', resource)]))))"

text \<open>
  \<^verbatim>\<open>Promise.all\<close> over promises whose settled results are \<open>ps\<close>. The promises settle in an
  order the caller does not control: \<open>settled\<close> lists their indices in the order in which
  they settle (indices it leaves out settle last, in list order). The aggregate is
  rejected with the reason of the first promise to settle as rejected; when none is
  rejected it is fulfilled with the values in the order of \<open>ps\<close>.
\<close>

definition Promise_all :: "nat list \<Rightarrow> (error + 'a) list \<Rightarrow> error + 'a list" where
  "Promise_all settled ps =
     (case filter (\<lambda>i. i < length ps \<and> isl (ps ! i)) (settled @ [0..<length ps]) of
        [] \<Rightarrow> Inr (map projr ps)
      | i # _ \<Rightarrow> Inl (projl (ps ! i)))"

text \<open>
  The \<^verbatim>\<open>for (const embed of embedLikes)\<close> loop: each embed-like with a truthy \<^verbatim>\<open>files\<close>
  pushes them.
\<close>

definition files_of_embed :: "jsval \<Rightarrow> error + jsval list" where
  "files_of_embed e =
     bindE (get e ''files'') (\<lambda>fs. if truthy fs then spread_iter fs else Inr [])"

fun embed_files :: "jsval list \<Rightarrow> error + jsval list" where
  "embed_files [] = Inr []"
| "embed_files (e # es) =
     bindE (files_of_embed e) (\<lambda>xs.
     bindE (embed_files es) (\<lambda>ys. Inr (xs @ ys)))"

definition fileLikes :: "apimessage \<Rightarrow> error + jsval list" where
  "fileLikes this =
     bindE (embedLikes this) (\<lambda>els.
     bindE (if truthy (lookup (options this) ''files'')
            then spread_iter (lookup (options this) ''files'') else Inr []) (\<lambda>fs.
     bindE (embed_files els) (\<lambda>efs. Inr (fs @ efs))))"

definition resolveFiles :: "nat list \<Rightarrow> deps \<Rightarrow> apimessage \<Rightarrow> error + apimessage" where
  "resolveFiles settled h this =
     (if files this \<noteq> None then Inr this else
      bindE (fileLikes this) (\<lambda>fls.
      bindE (Promise_all settled (map (resolveFile h) fls)) (\<lambda>rs.
      Inr (this\<lparr>files := Some rs\<rparr>))))"

section \<open>split and create\<close>

text \<open>The body of the \<^verbatim>\<open>for\<close> loop of \<^verbatim>\<open>split\<close>, at index \<open>i\<close> of the content array \<open>cs\<close>.\<close>

definition split_at :: "apimessage \<Rightarrow> props \<Rightarrow> jsval list \<Rightarrow> nat \<Rightarrow> apimessage" where
  "split_at this d cs i =
     (if i = length cs - 1 then
        (new_APIMessage (target this) (AList.update ''content'' (cs ! i) (options this)))
          \<lparr>data := Some (AList.update ''content'' (cs ! i) d)\<rparr>
      else
        (new_APIMessage (target this)
           [(''content'', cs ! i), (''tts'', lookup d ''tts''),
            (''allowedMentions'', lookup (options this) ''allowedMentions'')])
          \<lparr>data := Some [(''content'', cs ! i), (''tts'', lookup d ''tts''),
                         (''allowed_mentions'', lookup (options this) ''allowedMentions'')]\<rparr>)"

text \<open>
  \<^verbatim>\<open>split\<close> returns the array of instances; the first component of the result is the
  receiver after the call (it may have been built by \<^verbatim>\<open>resolveData\<close>).
\<close>

definition split :: "deps \<Rightarrow> apimessage \<Rightarrow> error + apimessage \<times> apimessage list" where
  "split h this =
     bindE (if data this = None then resolveData h this else Inr this) (\<lambda>this1.
     case data this1 of
       None \<Rightarrow> Inl TypeError
     | Some d \<Rightarrow>
         (case lookup d ''content'' of
            Arr cs \<Rightarrow> Inr (this1, map (split_at this1 d cs) [0..<length cs])
          | _ \<Rightarrow> Inr (this1, [this1])))"

text \<open>
  \<^verbatim>\<open>create\<close>: the object literals \<^verbatim>\<open>{ content: options, ...extra }\<close> and
  \<^verbatim>\<open>{ ...options, ...extra }\<close>, where a later key overwrites an earlier one in place.
\<close>

definition assign :: "props \<Rightarrow> props \<Rightarrow> props" where
  "assign ps qs = foldl (\<lambda>acc (k, v). AList.update k v acc) ps qs"

definition create :: "target \<Rightarrow> jsval \<Rightarrow> jsval \<Rightarrow> apimessage" where
  "create t opts extra =
     new_APIMessage t
       (if typeof opts \<noteq> ''object'' \<or> opts = Null
        then assign [(''content'', opts)] (spread_obj extra)
        else assign (spread_obj opts) (spread_obj extra))"

section \<open>The collaborators as the specification describes them\<close>

text \<open>
  Modelled from the spec: \<^verbatim>\<open>Util.splitMessage\<close> is not among the sources. The content
  formatter's contract reads: the content is partitioned into chunks of at most
  \<^verbatim>\<open>maxLength\<close> characters (default: the service limit), breaking preferentially at the
  configured boundary token (default: newline), falling back to a hard cut if no boundary
  exists within the limit; each chunk except the first is prefixed by the configured
  \<^verbatim>\<open>prepend\<close> and each except the last is suffixed by the configured \<^verbatim>\<open>append\<close>; a cut
  never falls inside a boundary token; a chunk with its prepend and append never exceeds
  the limit, and the split fails when a single piece cannot fit even alone.
\<close>

definition cfg_maxLength :: "nat \<Rightarrow> props \<Rightarrow> nat" where
  "cfg_maxLength limit so = (case lookup so ''maxLength'' of Num r \<Rightarrow> nat \<lfloor>r\<rfloor> | _ \<Rightarrow> limit)"

definition cfg_char :: "props \<Rightarrow> string" where
  "cfg_char so = (case lookup so ''char'' of Str s \<Rightarrow> s | _ \<Rightarrow> [CHR 0x0A])"

definition cfg_prepend :: "props \<Rightarrow> string" where
  "cfg_prepend so = (case lookup so ''prepend'' of Str s \<Rightarrow> s | _ \<Rightarrow> [])"

definition cfg_append :: "props \<Rightarrow> string" where
  "cfg_append so = (case lookup so ''append'' of Str s \<Rightarrow> s | _ \<Rightarrow> [])"

text \<open>Modelled from the spec: the boundary token \<open>ch\<close> occupies \<open>r\<close> from position \<open>j\<close> on.\<close>

definition token_at :: "string \<Rightarrow> string \<Rightarrow> nat \<Rightarrow> bool" where
  "token_at ch r j = (take (length ch) (drop j r) = ch)"

text \<open>Modelled from the spec: a cut after \<open>k\<close> characters would fall inside a boundary token.\<close>

definition inside_token :: "string \<Rightarrow> string \<Rightarrow> nat \<Rightarrow> bool" where
  "inside_token ch r k = list_ex (\<lambda>j. k < j + length ch \<and> token_at ch r j) [0..<k]"

text \<open>
  Modelled from the spec: where to cut \<open>r\<close> when at most \<open>room\<close> of its characters fit. The
  longest piece that ends with a boundary token is preferred; without one the cut is
  the longest piece that does not end inside a token; \<open>None\<close> when not even one
  character can be cut off.
\<close>

definition cut_point :: "string \<Rightarrow> nat \<Rightarrow> string \<Rightarrow> nat option" where
  "cut_point ch room r =
     (case filter (\<lambda>k. length ch \<le> k \<and> token_at ch r (k - length ch)) (rev [1..<Suc room]) of
        k # _ \<Rightarrow> Some k
      | [] \<Rightarrow>
          (case filter (\<lambda>k. \<not> inside_token ch r k) (rev [1..<Suc room]) of
             k # _ \<Rightarrow> Some k
           | [] \<Rightarrow> None))"

text \<open>
  Modelled from the spec: the chunks of the rest \<open>r\<close> of the text, for the limit \<open>M\<close>, the
  boundary token \<open>ch\<close> and the configured \<open>pre\<close> and \<open>app\<close>; \<open>first\<close> holds for the first chunk.
\<close>

function split_from :: "nat \<Rightarrow> string \<Rightarrow> string \<Rightarrow> string \<Rightarrow> bool \<Rightarrow> string \<Rightarrow> error + string list" where
  "split_from M ch pre app first r =
     (if length (if first then [] else pre) + length r \<le> M
      then Inr [(if first then [] else pre) @ r]
      else if M \<le> length (if first then [] else pre) + length app
      then Inl (RangeError ''SplitImpossible'')
      else (case cut_point ch (M - length (if first then [] else pre) - length app) r of
              None \<Rightarrow> Inl (RangeError ''SplitImpossible'')
            | Some k \<Rightarrow>
                bindE (split_from M ch pre app False (drop k r))
                  (\<lambda>rest. Inr (((if first then [] else pre) @ take k r @ app) # rest))))"
  by pat_completeness auto

termination split_from
proof (relation "measure (\<lambda>(M, ch, pre, app, first, r). length r)")
  show "wf (measure (\<lambda>(M, ch, pre, app, first, r). length r))"
    by simp
next
  fix M :: nat and ch pre app :: string and first :: bool and r :: string and k :: nat
  assume big: "\<not> length (if first then [] else pre) + length r \<le> M"
    and small: "\<not> M \<le> length (if first then [] else pre) + length app"
    and cut: "cut_point ch (M - length (if first then [] else pre) - length app) r = Some k"
  have head: "x \<in> set xs" if "filter P xs = x # ys" for P and x :: nat and xs ys
  proof -
    from that have "x \<in> set (filter P xs)" by simp
    then show ?thesis by simp
  qed
  from cut have "k \<in> set (rev [1..<Suc (M - length (if first then [] else pre) - length app)])"
    unfolding cut_point_def by (auto split: list.splits dest: head simp del: upt_Suc set_rev set_upt)
  then have "1 \<le> k" by auto
  moreover from big small have "r \<noteq> []" by (auto split: if_splits)
  ultimately show "((M, ch, pre, app, False, drop k r), (M, ch, pre, app, first, r))
        \<in> measure (\<lambda>(M, ch, pre, app, first, r). length r)"
    by (cases r) auto
qed

declare split_from.simps [simp del]

text \<open>Modelled from the spec: \<^verbatim>\<open>Util.splitMessage\<close>, for the service limit \<open>limit\<close>.\<close>

definition spec_splitMessage :: "nat \<Rightarrow> string \<Rightarrow> props \<Rightarrow> error + string list" where
  "spec_splitMessage limit text so =
     split_from (cfg_maxLength limit so) (cfg_char so) (cfg_prepend so) (cfg_append so) True text"

text \<open>
  Modelled from the spec: the chunks made of the pieces \<open>ps\<close> of a text: each piece except
  the first is prefixed by the configured \<^verbatim>\<open>prepend\<close> and each except the last is suffixed
  by the configured \<^verbatim>\<open>append\<close>; \<open>first\<close> holds when the first of the pieces is the first
  piece of the whole text.
\<close>

fun dress :: "string \<Rightarrow> string \<Rightarrow> bool \<Rightarrow> string list \<Rightarrow> string list" where
  "dress pre app first [] = []"
| "dress pre app first [p] = [(if first then [] else pre) @ p]"
| "dress pre app first (p # q # ps) =
     ((if first then [] else pre) @ p @ app) # dress pre app False (q # ps)"

text \<open>
  Modelled from the spec: the part of the splitter's contract that speaks about each
  chunk: none is longer than the limit, each but the first starts with the configured
  prepend, each but the last ends with the configured append.
\<close>

definition chunks_ok :: "nat \<Rightarrow> props \<Rightarrow> string list \<Rightarrow> bool" where
  "chunks_ok limit so cs =
     (list_all (\<lambda>c. length c \<le> cfg_maxLength limit so) cs \<and>
      list_all (prefix (cfg_prepend so)) (tl cs) \<and>
      list_all (suffix (cfg_append so)) (butlast cs))"

definition split_contract :: "nat \<Rightarrow> (string \<Rightarrow> props \<Rightarrow> error + string list) \<Rightarrow> bool" where
  "split_contract limit sm = (\<forall>text so cs. sm text so = Inr cs \<longrightarrow> chunks_ok limit so cs)"

text \<open>
  Modelled from the spec: \<^verbatim>\<open>Util.verifyString\<close> as the content formatter's contract has it:
  content that is neither \<^verbatim>\<open>null\<close> nor \<^verbatim>\<open>undefined\<close> must be a string.
\<close>

definition spec_verifyString :: "jsval \<Rightarrow> error + jsval" where
  "spec_verifyString x =
     (case x of Str s \<Rightarrow> Inr (Str s) | _ \<Rightarrow> Inl (RangeError ''MESSAGE_CONTENT_TYPE''))"

text \<open>
  A concrete set of collaborators, to run the model on concrete inputs: the splitter and
  the string check above, normalisers that return their input, a clone that copies the
  own properties of an object, the last segment of a path as its base name, and a loader
  that fails on \<^verbatim>\<open>undefined\<close> and \<^verbatim>\<open>null\<close>.
\<close>

definition spec_deps :: deps where
  "spec_deps =
     \<lparr>verifyString = spec_verifyString,
      cleanCodeBlockContent = (\<lambda>s. s),
      splitMessage = spec_splitMessage 2000,
      cloneObject = (\<lambda>x. case x of Obj ps \<Rightarrow> Inr ps | _ \<Rightarrow> Inl TypeError),
      embed_toJSON = Inr,
      component_toJSON = Inr,
      flags_resolve = Inr,
      EPHEMERAL = Num 64,
      ACTION_ROW = Num 1,
      basename = (\<lambda>p. case p of
                    Str s \<Rightarrow> Inr (Str (rev (takeWhile (\<lambda>c. c \<noteq> CHR ''/'') (rev s))))
                  | _ \<Rightarrow> Inl TypeError),
      load = (\<lambda>a. if a = Undefined \<or> a = Null then Inl (Rejected ''REQ_RESOURCE_TYPE'') else Inr a),
      number_to_string = (\<lambda>r. show_nat (nat \<lfloor>r\<rfloor>))\<rparr>"

text \<open>A text channel with an empty client default, and a message collection that resolves strings to themselves.\<close>

definition resolveID_strings :: "jsval \<Rightarrow> jsval" where
  "resolveID_strings r = (case r of Str s \<Rightarrow> Str s | _ \<Rightarrow> Null)"

definition channel_target :: target where
  "channel_target =
     \<lparr>classes = [OtherClass ''TextChannel''],
      target_name = Str ''general'',
      flags_bitfield = Undefined,
      client_allowedMentions = Undefined,
      messages = Some resolveID_strings,
      channel_messages = None\<rparr>"

definition webhook_target :: target where
  "webhook_target =
     \<lparr>classes = [Webhook],
      target_name = Str ''hook'',
      flags_bitfield = Undefined,
      client_allowedMentions = Undefined,
      messages = None,
      channel_messages = None\<rparr>"

text \<open>Options that carry both a single embed and an embed array.\<close>

definition both_embeds :: props where
  "both_embeds =
     [(''content'', Str ''hi''),
      (''embed'', Obj [(''title'', Str ''one'')]),
      (''embeds'', Arr [Obj [(''title'', Str ''a'')], Obj [(''title'', Str ''b'')]])]"

text \<open>A message to edit, whose channel resolves strings, and an interaction.\<close>

definition message_target :: target where
  "message_target =
     \<lparr>classes = [Message],
      target_name = Undefined,
      flags_bitfield = Num 4,
      client_allowedMentions = Obj [(''parse'', Arr [Str ''users'']), (''repliedUser'', Bool True)],
      messages = None,
      channel_messages = Some resolveID_strings\<rparr>"

definition interaction_target :: target where
  "interaction_target =
     \<lparr>classes = [Interaction],
      target_name = Undefined,
      flags_bitfield = Undefined,
      client_allowedMentions = Undefined,
      messages = None,
      channel_messages = None\<rparr>"

text \<open>The payload that \<^verbatim>\<open>resolveData\<close> stores (the empty object when it throws).\<close>

definition built :: "deps \<Rightarrow> apimessage \<Rightarrow> props" where
  "built h this =
     (case resolveData h this of
        Inl e \<Rightarrow> []
      | Inr this' \<Rightarrow> (case data this' of None \<Rightarrow> [] | Some d \<Rightarrow> d))"

text \<open>A reply to message 42 with a mention policy of its own.\<close>

definition reply_42 :: props where
  "reply_42 =
     [(''reply'', Obj [(''messageReference'', Str ''42'')]),
      (''allowedMentions'', Obj [(''repliedUser'', Bool True)])]"

text \<open>Options whose fenced content splits into two chunks, with an embed.\<close>

definition long_message :: props where
  "long_message =
     [(''content'', Str (''a'' @ [CHR 0x0A] @ ''b'')),
      (''code'', Str ''js''),
      (''split'', Obj [(''maxLength'', Num 12)]),
      (''tts'', Bool True),
      (''embed'', Obj [(''title'', Str ''one'')])]"

text \<open>The same instance, bound to a target of other classes that is otherwise the same.\<close>

definition retarget :: "js_class list \<Rightarrow> apimessage \<Rightarrow> apimessage" where
  "retarget cs this = this\<lparr>target := (target this)\<lparr>classes := cs\<rparr>\<rparr>"

text \<open>Two declared files and one carried by an embed; and files whose resolution fails.\<close>

definition three_files :: props where
  "three_files =
     [(''files'', Arr [Str ''A.png'', Obj [(''attachment'', Str ''pics/b.png''), (''name'', Str ''B.png'')]]),
      (''embeds'', Arr [Obj [(''title'', Str ''t''), (''files'', Arr [Str ''img/C.png''])]])]"

definition bad_files :: props where
  "bad_files =
     [(''files'', Arr [Str ''A.png'', Null, Obj [(''attachment'', Null), (''name'', Str ''x'')]])]"

text \<open>
  Code to split with a prepend of the caller, and code to split at backticks.
\<close>

definition prepended_message :: props where
  "prepended_message =
     [(''content'', Str (''a'' @ [CHR 0x0A] @ ''b'')),
      (''code'', Str ''js''),
      (''split'', Obj [(''maxLength'', Num 12), (''prepend'', Str ''X'')])]"

definition backtick_message :: props where
  "backtick_message =
     [(''content'', Str ''aaaaaaaa''),
      (''code'', Str ''js''),
      (''split'', Obj [(''maxLength'', Num 16), (''char'', Str ''`'')])]"

text \<open>The chunks of a content result as plain strings; none when the content is no array.\<close>

definition chunks_of :: "error + jsval \<Rightarrow> string list" where
  "chunks_of r =
     (case r of
        Inr (Arr xs) \<Rightarrow> map (\<lambda>x. case x of Str s \<Rightarrow> s | _ \<Rightarrow> []) xs
      | _ \<Rightarrow> [])"

text \<open>
  A text channel whose client sets a default mention policy, and the payloads of the
  instances that \<^verbatim>\<open>split\<close> returns.
\<close>

definition defaults_target :: target where
  "defaults_target =
     \<lparr>classes = [OtherClass ''TextChannel''],
      target_name = Str ''general'',
      flags_bitfield = Undefined,
      client_allowedMentions = Obj [(''parse'', Arr []), (''repliedUser'', Bool True)],
      messages = Some resolveID_strings,
      channel_messages = None\<rparr>"

definition split_data :: "deps \<Rightarrow> apimessage \<Rightarrow> props list" where
  "split_data h this =
     (case split h this of
        Inl e \<Rightarrow> []
      | Inr (this1, ms) \<Rightarrow> map (\<lambda>m. case data m of None \<Rightarrow> [] | Some d \<Rightarrow> d) ms)"

section \<open>Basic facts\<close>

lemma bindE_Inr_iff: "bindE m f = Inr y \<longleftrightarrow> (\<exists>x. m = Inr x \<and> f x = Inr y)"
  by (cases m) (simp_all add: bindE_def)

lemma bindE_Inr [simp]: "bindE (Inr x) f = f x"
  by (simp add: bindE_def)

lemma bindE_Inl [simp]: "bindE (Inl e) f = Inl e"
  by (simp add: bindE_def)

lemma typeof_undefined [simp]: "typeof v = ''undefined'' \<longleftrightarrow> v = Undefined"
  by (cases v) simp_all

text \<open>What a successful \<^verbatim>\<open>resolveData\<close> on an instance without data has computed and stored.\<close>

lemma resolveData_Inr:
  assumes "data this = None" and "resolveData h this = Inr this'"
  shows "\<exists>content nonce els embeds components flags am mr.
           makeContent h this = Inr content \<and> resolve_nonce this = Inr nonce \<and>
           embedLikes this = Inr els \<and> mapE (embed_toJSON h) els = Inr embeds \<and>
           resolve_components h this = Inr components \<and> resolve_flags h this = Inr flags \<and>
           resolve_allowedMentions h this = Inr am \<and> resolve_message_reference this = Inr mr \<and>
           this' = this\<lparr>data := Some (payload this content nonce embeds components flags am mr)\<rparr>"
  using assms unfolding resolveData_def payload_def
  by (clarsimp simp add: bindE_Inr_iff Let_def split del: if_split)

lemma payload_lookups:
  "lookup (payload this c n es cm fl am mr) ''content'' = c"
  "lookup (payload this c n es cm fl am mr) ''tts'' = Bool (truthy (lookup (options this) ''tts''))"
  "lookup (payload this c n es cm fl am mr) ''embed'' =
     (if \<not> (isInteraction this \<or> isWebhook this)
      then (if lookup (options this) ''embed'' = Null then Null else nth_or_undefined es 0)
      else Undefined)"
  "lookup (payload this c n es cm fl am mr) ''embeds'' =
     (if isInteraction this \<or> isWebhook this then Arr es else Undefined)"
  "lookup (payload this c n es cm fl am mr) ''allowed_mentions'' =
     (if c = Undefined \<and> mr = Undefined then Undefined else am)"
  "lookup (payload this c n es cm fl am mr) ''flags'' = fl"
  "lookup (payload this c n es cm fl am mr) ''message_reference'' = mr"
  by (simp_all add: payload_def lookup_def)

lemma built_eq:
  assumes "resolveData h this = Inr this'" and "data this' = Some d"
  shows "built h this = d"
  using assms by (simp add: built_def)

lemma succeeds:
  assumes "\<not> isl (resolveData h this)"
  obtains this' where "resolveData h this = Inr this'"
  using assms by (cases "resolveData h this") auto

lemma lookup_update: "lookup (AList.update k v ps) k' = (if k' = k then v else lookup ps k')"
  by (simp add: lookup_def update_conv')

lemma lookup_delete: "lookup (AList.delete k ps) k' = (if k' = k then Undefined else lookup ps k')"
  by (simp add: lookup_def delete_conv')

lemma rename_repliedUser_props:
  "lookup (rename_repliedUser ps) ''replied_user'' = lookup ps ''repliedUser''"
  "lookup (rename_repliedUser ps) ''repliedUser'' = Undefined"
  "''repliedUser'' \<notin> set (map fst (rename_repliedUser ps))"
  "k \<noteq> ''replied_user'' \<Longrightarrow> k \<noteq> ''repliedUser'' \<Longrightarrow> lookup (rename_repliedUser ps) k = lookup ps k"
  by (simp_all add: rename_repliedUser_def lookup_update lookup_delete delete_keys del: set_map)

lemma resolveData_data_cong:
  assumes "data a = None" and "data b = None"
    and "makeContent h a = makeContent h b"
    and "resolve_nonce a = resolve_nonce b"
    and "embedLikes a = embedLikes b"
    and "resolve_components h a = resolve_components h b"
    and "resolve_flags h a = resolve_flags h b"
    and "resolve_allowedMentions h a = resolve_allowedMentions h b"
    and "resolve_message_reference a = resolve_message_reference b"
    and "isWebhook a = isWebhook b" and "isInteraction a = isInteraction b"
    and "target_name (target a) = target_name (target b)"
    and "lookup (options a) ''tts'' = lookup (options b) ''tts''"
    and "lookup (options a) ''embed'' = lookup (options b) ''embed''"
    and "lookup (options a) ''username'' = lookup (options b) ''username''"
    and "lookup (options a) ''avatarURL'' = lookup (options b) ''avatarURL''"
    and "lookup (options a) ''attachments'' = lookup (options b) ''attachments''"
  shows "map_sum id data (resolveData h a) = map_sum id data (resolveData h b)"
  unfolding resolveData_def using assms
  by (auto simp add: Let_def bindE_def split: sum.splits)

lemma resolveData_data:
  assumes "resolveData h this = Inr this'"
  shows "\<exists>d. data this' = Some d"
proof (cases "data this")
  case None
  from resolveData_Inr [OF None assms] show ?thesis by auto
next
  case (Some d)
  with assms show ?thesis by (simp add: resolveData_def)
qed

lemma resolveData_keeps:
  assumes "resolveData h this = Inr this'"
  shows "target this' = target this" and "options this' = options this" and "files this' = files this"
proof -
  have "target this' = target this \<and> options this' = options this \<and> files this' = files this"
  proof (cases "data this")
    case None
    from resolveData_Inr [OF None assms] show ?thesis by auto
  next
    case (Some d)
    with assms show ?thesis by (simp add: resolveData_def)
  qed
  then show "target this' = target this" and "options this' = options this"
    and "files this' = files this" by simp_all
qed

lemma split_Inr:
  assumes "split h this = Inr (this1, ms)"
  shows "\<exists>d. (if data this = None then resolveData h this = Inr this1 else this1 = this) \<and>
           data this1 = Some d \<and>
           ms = (case lookup d ''content'' of
                   Arr cs \<Rightarrow> map (split_at this1 d cs) [0..<length cs]
                 | _ \<Rightarrow> [this1])"
proof -
  from assms obtain t where t: "(if data this = None then resolveData h this else Inr this) = Inr t"
    and r: "(case data t of
               None \<Rightarrow> Inl TypeError
             | Some d \<Rightarrow>
                 (case lookup d ''content'' of
                    Arr cs \<Rightarrow> Inr (t, map (split_at t d cs) [0..<length cs])
                  | _ \<Rightarrow> Inr (t, [t]))) = Inr (this1, ms)"
    unfolding split_def bindE_Inr_iff by blast
  from r obtain d where d: "data t = Some d"
    by (cases "data t") simp_all
  from r d have "this1 = t \<and> ms = (case lookup d ''content'' of
                   Arr cs \<Rightarrow> map (split_at t d cs) [0..<length cs]
                 | _ \<Rightarrow> [t])"
    by (cases "lookup d ''content''") (simp_all, blast+)
  with t d show ?thesis
    by (auto split: if_splits)
qed

lemma resolveData_built:
  assumes "data this \<noteq> None"
  shows "resolveData h this = Inr this"
  using assms by (simp add: resolveData_def)

lemma resolveFiles_Inr:
  assumes "resolveFiles settled h this = Inr this'"
  shows "\<exists>rs. files this' = Some rs"
  using assms by (auto simp add: resolveFiles_def bindE_Inr_iff split: if_splits)

lemma split_built:
  assumes "data this = Some d"
  shows "split h this =
           Inr (this, case lookup d ''content'' of
                        Arr cs \<Rightarrow> map (split_at this d cs) [0..<length cs]
                      | _ \<Rightarrow> [this])"
  using assms by (cases "lookup d ''content''") (simp_all add: split_def)

lemma retarget_simps [simp]:
  "options (retarget cs this) = options this"
  "data (retarget cs this) = data this"
  "files (retarget cs this) = files this"
  "target_name (target (retarget cs this)) = target_name (target this)"
  "flags_bitfield (target (retarget cs this)) = flags_bitfield (target this)"
  "client_allowedMentions (target (retarget cs this)) = client_allowedMentions (target this)"
  "messages (target (retarget cs this)) = messages (target this)"
  "channel_messages (target (retarget cs this)) = channel_messages (target this)"
  "retarget cs (this\<lparr>data := d\<rparr>) = (retarget cs this)\<lparr>data := d\<rparr>"
  "retarget cs (this\<lparr>files := f\<rparr>) = (retarget cs this)\<lparr>files := f\<rparr>"
  by (simp_all add: retarget_def)

lemma retarget_resolveData:
  assumes "isWebhook (retarget cs this) = isWebhook this"
    and "isMessage (retarget cs this) = isMessage this"
    and "isInteraction (retarget cs this) = isInteraction this"
  shows "resolveData h (retarget cs this) = map_sum id (retarget cs) (resolveData h this)"
proof -
  have 1: "makeContent h (retarget cs this) = makeContent h this"
    by (simp add: makeContent_def Let_def cong: jsval.case_cong if_cong)
  have 2: "resolve_nonce (retarget cs this) = resolve_nonce this"
    by (simp add: resolve_nonce_def)
  have 3: "embedLikes (retarget cs this) = embedLikes this"
    by (simp add: embedLikes_def assms)
  have 4: "resolve_components h (retarget cs this) = resolve_components h this"
    by (simp add: resolve_components_def)
  have 5: "resolve_flags h (retarget cs this) = resolve_flags h this"
    by (simp add: resolve_flags_def assms)
  have 6: "resolve_allowedMentions h (retarget cs this) = resolve_allowedMentions h this"
    by (simp add: resolve_allowedMentions_def selected_allowedMentions_def)
  have "message_collection (retarget cs this) = message_collection this"
    by (simp add: message_collection_def assms)
  then have 7: "resolve_message_reference (retarget cs this) = resolve_message_reference this"
    by (simp add: resolve_message_reference_def Let_def cong: if_cong)
  show ?thesis
    unfolding resolveData_def 1 2 3 4 5 6 7
    by (auto simp add: assms Let_def bindE_def split: sum.splits)
qed


lemma retarget_fileLikes:
  assumes "isWebhook (retarget cs this) = isWebhook this"
    and "isInteraction (retarget cs this) = isInteraction this"
  shows "fileLikes (retarget cs this) = fileLikes this"
  by (simp add: fileLikes_def embedLikes_def assms)

lemma retarget_resolveFiles:
  assumes "isWebhook (retarget cs this) = isWebhook this"
    and "isInteraction (retarget cs this) = isInteraction this"
  shows "resolveFiles settled h (retarget cs this) = map_sum id (retarget cs) (resolveFiles settled h this)"
  unfolding resolveFiles_def retarget_fileLikes [OF assms]
  by (auto simp add: bindE_def split: sum.splits)

lemma retarget_split_at:
  "split_at (retarget cs this) d xs i = retarget cs (split_at this d xs i)"
  by (simp add: split_at_def new_APIMessage_def retarget_def)

lemma retarget_split:
  assumes "isWebhook (retarget cs this) = isWebhook this"
    and "isMessage (retarget cs this) = isMessage this"
    and "isInteraction (retarget cs this) = isInteraction this"
  shows "split h (retarget cs this) =
           map_sum id (\<lambda>(a, ms). (retarget cs a, map (retarget cs) ms)) (split h this)"
proof (cases "data this")
  case (Some d)
  then have "data (retarget cs this) = Some d" by simp
  from split_built [OF this] split_built [OF Some] show ?thesis
    by (cases "lookup d ''content''") (simp_all add: retarget_split_at)
next
  case None
  show ?thesis
  proof (cases "resolveData h this")
    case (Inl e)
    with None retarget_resolveData [OF assms, of h] show ?thesis
      by (simp add: split_def)
  next
    case (Inr t)
    from resolveData_data [OF Inr] obtain d where d: "data t = Some d" by blast
    have "split h this = split h t"
      using None Inr d by (simp add: split_def)
    moreover have "split h (retarget cs this) = split h (retarget cs t)"
      using None Inr d retarget_resolveData [OF assms, of h] by (simp add: split_def)
    moreover have "data (retarget cs t) = Some d" using d by simp
    ultimately show ?thesis
      using split_built [OF d, of h] split_built [OF \<open>data (retarget cs t) = Some d\<close>, of h]
      by (cases "lookup d ''content''") (simp_all add: retarget_split_at)
  qed
qed

lemma embed_files_mapE:
  "embed_files es = bindE (mapE files_of_embed es) (\<lambda>xss. Inr (concat xss))"
proof (induction es)
  case Nil
  show ?case by simp
next
  case (Cons e es)
  show ?case
    by (simp add: Cons.IH bindE_def split: sum.splits)
qed

lemma Promise_all_fulfilled:
  assumes "list_all (\<lambda>p. \<not> isl p) ps"
  shows "Promise_all settled ps = Inr (map projr ps)"
proof -
  from assms have "\<And>i. i < length ps \<Longrightarrow> \<not> isl (ps ! i)"
    by (simp add: list_all_length)
  then have "filter (\<lambda>i. i < length ps \<and> isl (ps ! i)) (settled @ [0..<length ps]) = []"
    by (auto simp add: filter_empty_conv)
  then show ?thesis by (simp add: Promise_all_def)
qed

lemma Promise_all_rejected:
  assumes "\<not> list_all (\<lambda>p. \<not> isl p) ps"
  shows "\<exists>i<length ps. isl (ps ! i) \<and> Promise_all settled ps = Inl (projl (ps ! i))"
proof -
  from assms obtain j where j: "j < length ps" "isl (ps ! j)"
    by (auto simp add: list_all_length)
  let ?rejected = "filter (\<lambda>i. i < length ps \<and> isl (ps ! i)) (settled @ [0..<length ps])"
  from j have "j \<in> set ?rejected"
    by simp
  then have "?rejected \<noteq> []"
    by (metis empty_iff empty_set)
  then obtain i rest where f: "?rejected = i # rest"
    by (auto simp only: neq_Nil_conv)
  then have "i \<in> set (filter (\<lambda>i. i < length ps \<and> isl (ps ! i)) (settled @ [0..<length ps]))"
    by simp
  then have "i < length ps \<and> isl (ps ! i)" by auto
  moreover from f have "Promise_all settled ps = Inl (projl (ps ! i))"
    by (simp add: Promise_all_def)
  ultimately show ?thesis by blast
qed

lemma resolveFiles_outcome:
  assumes "files this = None" and fls: "fileLikes this = Inr fls"
  shows "if list_all (\<lambda>f. \<not> isl (resolveFile h f)) fls
        then resolveFiles settled h this =
               Inr (this\<lparr>files := Some (map (\<lambda>f. projr (resolveFile h f)) fls)\<rparr>)
        else \<exists>f \<in> set fls. isl (resolveFile h f) \<and>
               resolveFiles settled h this = Inl (projl (resolveFile h f))"
proof (cases "list_all (\<lambda>f. \<not> isl (resolveFile h f)) fls")
  case True
  then have "list_all (\<lambda>p. \<not> isl p) (map (resolveFile h) fls)"
    by (simp add: list_all_iff)
  from Promise_all_fulfilled [OF this, of settled] True assms show ?thesis
    by (simp add: resolveFiles_def comp_def)
next
  case False
  then have "\<not> list_all (\<lambda>p. \<not> isl p) (map (resolveFile h) fls)"
    by (simp add: list_all_iff)
  from Promise_all_rejected [OF this, of settled]
  obtain i where i: "i < length fls" "isl (resolveFile h (fls ! i))"
    "Promise_all settled (map (resolveFile h) fls) = Inl (projl (resolveFile h (fls ! i)))"
    by auto
  from i(1) have "fls ! i \<in> set fls" by simp
  moreover from i(3) assms
  have "resolveFiles settled h this = Inl (projl (resolveFile h (fls ! i)))"
    by (simp add: resolveFiles_def)
  ultimately show ?thesis using False i(2) by auto
qed

text \<open>The splitter described by the specification meets the contract stated for its chunks.\<close>

lemma cut_point_bounds:
  assumes "cut_point ch room r = Some k"
  shows "1 \<le> k \<and> k \<le> room"
proof -
  have head: "x \<in> set xs" if "filter P xs = x # ys" for P and x :: nat and xs ys
  proof -
    from that have "x \<in> set (filter P xs)" by simp
    then show ?thesis by simp
  qed
  from assms have "k \<in> set (rev [1..<Suc room])"
    unfolding cut_point_def by (auto split: list.splits dest: head simp del: upt_Suc set_rev set_upt)
  then show ?thesis by auto
qed

lemma split_from_chunks:
  assumes "split_from M ch pre app first r = Inr cs"
  shows "cs \<noteq> [] \<and> list_all (\<lambda>c. length c \<le> M) cs \<and>
         list_all (suffix app) (butlast cs) \<and>
         list_all (prefix pre) (tl cs) \<and> (\<not> first \<longrightarrow> prefix pre (hd cs))"
  using assms
proof (induction M ch pre app first r arbitrary: cs rule: split_from.induct)
  case (1 M ch pre app first r)
  let ?p = "if first then [] else pre"
  show ?case
  proof (cases "length ?p + length r \<le> M")
    case True
    with "1.prems" have "cs = [?p @ r]"
      by (simp add: split_from.simps [of M ch pre app first r])
    with True show ?thesis by simp
  next
    case False
    with "1.prems" have small: "\<not> M \<le> length ?p + length app"
      by (auto simp add: split_from.simps [of M ch pre app first r] split: if_splits)
    from False small "1.prems" obtain k rest where
      k: "cut_point ch (M - length ?p - length app) r = Some k"
      and rest: "split_from M ch pre app False (drop k r) = Inr rest"
      and cs: "cs = (?p @ take k r @ app) # rest"
      by (auto simp add: split_from.simps [of M ch pre app first r] bindE_Inr_iff
            split: if_splits option.splits)
    from "1.IH" [OF False small k rest]
    have ih: "rest \<noteq> []" "list_all (\<lambda>c. length c \<le> M) rest"
      "list_all (suffix app) (butlast rest)" "list_all (prefix pre) (tl rest)"
      "prefix pre (hd rest)"
      by simp_all
    from cut_point_bounds [OF k] have "k \<le> M - length ?p - length app" by simp
    with small have len: "length (?p @ take k r @ app) \<le> M" by simp
    from ih(1,4,5) have all: "list_all (prefix pre) rest"
      by (cases rest) simp_all
    have suf: "suffix app (?p @ take k r @ app)"
      by (simp add: suffix_def)
    from ih len all suf show ?thesis
      by (simp add: cs)
  qed
qed

lemma spec_splitMessage_contract: "split_contract limit (spec_splitMessage limit)"
  unfolding split_contract_def chunks_ok_def spec_splitMessage_def
  using split_from_chunks by blast


lemma inject_fence_cfg:
  "cfg_prepend (inject_fence h cn so) =
     to_str (number_to_string h) (js_or (lookup so ''prepend'') (Str [])) @ fence_open cn"
  "cfg_append (inject_fence h cn so) =
     fence_close @ to_str (number_to_string h) (js_or (lookup so ''append'') (Str []))"
  "cfg_maxLength limit (inject_fence h cn so) = cfg_maxLength limit so"
  "cfg_char (inject_fence h cn so) = cfg_char so"
  by (simp_all add: inject_fence_def cfg_prepend_def cfg_append_def cfg_maxLength_def cfg_char_def
        lookup_update Let_def)

lemma makeContent_code:
  assumes "lookup (options this) ''content'' = Str s" and "s \<noteq> []"
    and "verifyString h (Str s) = Inr (Str s)"
    and "isCode (options this)"
  shows "makeContent h this =
           (if isSplit (options this)
            then bindE (splitMessage h
                          (fence_open (codeName (options this)) @ cleanCodeBlockContent h s @ fence_close)
                          (inject_fence h (codeName (options this))
                             (spread_obj (lookup (options this) ''split''))))
                   (\<lambda>cs. Inr (Arr (map Str cs)))
            else Inr (Str (fence_open (codeName (options this)) @ cleanCodeBlockContent h s @ fence_close)))"
  using assms by (simp add: makeContent_def Let_def)

text \<open>One step of the splitter of the specification on a text that does not fit.\<close>

lemma split_from_step:
  assumes "split_from M ch pre app first r = Inr cs"
    and "\<not> length (if first then [] else pre) + length r \<le> M"
  shows "\<exists>k rest. cut_point ch (M - length (if first then [] else pre) - length app) r = Some k \<and>
           \<not> M \<le> length (if first then [] else pre) + length app \<and>
           split_from M ch pre app False (drop k r) = Inr rest \<and>
           cs = ((if first then [] else pre) @ take k r @ app) # rest \<and>
           length app < length (drop k r)"
proof -
  let ?p = "if first then [] else pre"
  from assms have small: "\<not> M \<le> length ?p + length app"
    by (auto simp add: split_from.simps [of M ch pre app first r] split: if_splits)
  from assms small obtain k rest where
    k: "cut_point ch (M - length ?p - length app) r = Some k"
    and rest: "split_from M ch pre app False (drop k r) = Inr rest"
    and cs: "cs = (?p @ take k r @ app) # rest"
    by (auto simp add: split_from.simps [of M ch pre app first r] bindE_Inr_iff
          split: if_splits option.splits)
  from cut_point_bounds [OF k] have "k \<le> M - length ?p - length app" by simp
  with small assms(2) have "length app < length (drop k r)" by simp
  with k small rest cs show ?thesis by blast
qed

text \<open>The chunks are the pieces of the text, in order, each dressed with prepend and append.\<close>

lemma split_from_pieces:
  assumes "split_from M ch pre app first r = Inr cs"
  shows "\<exists>ps. ps \<noteq> [] \<and> concat ps = r \<and> cs = dress pre app first ps"
  using assms
proof (induction M ch pre app first r arbitrary: cs rule: split_from.induct)
  case (1 M ch pre app first r)
  let ?p = "if first then [] else pre"
  show ?case
  proof (cases "length ?p + length r \<le> M")
    case True
    with "1.prems" have "cs = [?p @ r]"
      by (simp add: split_from.simps [of M ch pre app first r])
    then have "[r] \<noteq> [] \<and> concat [r] = r \<and> cs = dress pre app first [r]" by simp
    then show ?thesis by blast
  next
    case False
    from split_from_step [OF "1.prems" False] obtain k rest where
      k: "cut_point ch (M - length ?p - length app) r = Some k"
      and small: "\<not> M \<le> length ?p + length app"
      and rest: "split_from M ch pre app False (drop k r) = Inr rest"
      and cs: "cs = (?p @ take k r @ app) # rest"
      by blast
    from "1.IH" [OF False small k rest] obtain ps where
      ps: "ps \<noteq> []" "concat ps = drop k r" "rest = dress pre app False ps"
      by blast
    from ps(1) obtain q qs where q: "ps = q # qs" by (cases ps) auto
    have "take k r # ps \<noteq> [] \<and> concat (take k r # ps) = r \<and>
          cs = dress pre app first (take k r # ps)"
      using ps cs by (simp add: q)
    then show ?thesis by blast
  qed
qed

text \<open>A suffix of the text that is no longer than the append is a suffix of the last chunk.\<close>

lemma split_from_last:
  assumes "split_from M ch pre app first r = Inr cs"
    and "suffix z r" and "length z \<le> length app"
  shows "suffix z (last cs)"
  using assms
proof (induction M ch pre app first r arbitrary: cs rule: split_from.induct)
  case (1 M ch pre app first r)
  let ?p = "if first then [] else pre"
  show ?case
  proof (cases "length ?p + length r \<le> M")
    case True
    with "1.prems" have "cs = [?p @ r]"
      by (simp add: split_from.simps [of M ch pre app first r])
    with "1.prems"(2) show ?thesis
      by (simp add: suffix_appendI)
  next
    case False
    from split_from_step [OF "1.prems"(1) False] obtain k rest where
      k: "cut_point ch (M - length ?p - length app) r = Some k"
      and small: "\<not> M \<le> length ?p + length app"
      and rest: "split_from M ch pre app False (drop k r) = Inr rest"
      and cs: "cs = (?p @ take k r @ app) # rest"
      and long: "length app < length (drop k r)"
      by blast
    from "1.prems"(2) obtain y where y: "r = y @ z" by (auto simp add: suffix_def)
    from long "1.prems"(3) have "k \<le> length y" by (simp add: y)
    then have "suffix z (drop k r)" by (simp add: y suffix_def)
    from "1.IH" [OF False small k rest this "1.prems"(3)] have "suffix z (last rest)" .
    moreover from split_from_chunks [OF rest] have "rest \<noteq> []" by simp
    ultimately show ?thesis by (simp add: cs)
  qed
qed

text \<open>The cut is at the end of a boundary token, or every longer cut that fits is inside one.\<close>

lemma filter_rev_upt_greatest:
  assumes "filter P (rev [a..<b]) = k # ks" and "a \<le> k'" and "k' < b" and "k < k'"
  shows "\<not> P k'"
proof
  assume "P k'"
  with assms(2,3) have mem: "k' \<in> set (filter P [a..<b])" by simp
  from assms(1) have "rev (filter P [a..<b]) = k # ks" by (simp add: rev_filter)
  then have f: "filter P [a..<b] = rev ks @ [k]" by (simp add: rev_swap)
  have "sorted (filter P [a..<b])" by (simp add: sorted_wrt_filter)
  with f have "\<forall>x\<in>set (rev ks @ [k]). x \<le> k"
    by (simp add: sorted_append)
  with mem f have "k' \<le> k" by auto
  with assms(4) show False by simp
qed

lemma cut_point_cases:
  assumes "cut_point ch room r = Some k"
  shows "(length ch \<le> k \<and> token_at ch r (k - length ch)) \<or>
         (\<forall>k'. k < k' \<and> k' \<le> room \<longrightarrow> inside_token ch r k')"
proof (cases "filter (\<lambda>k. length ch \<le> k \<and> token_at ch r (k - length ch)) (rev [1..<Suc room])")
  case (Cons a as)
  with assms have "a = k" by (simp add: cut_point_def)
  with Cons have "k \<in> set (filter (\<lambda>k. length ch \<le> k \<and> token_at ch r (k - length ch)) (rev [1..<Suc room]))"
    by simp
  then show ?thesis by simp
next
  case Nil
  with assms obtain ks where
    f: "filter (\<lambda>k. \<not> inside_token ch r k) (rev [1..<Suc room]) = k # ks"
    by (auto simp add: cut_point_def split: list.splits simp del: upt_Suc)
  have "inside_token ch r k'" if "k < k'" and "k' \<le> room" for k'
  proof -
    from that have "1 \<le> k'" and "k' < Suc room" by simp_all
    from filter_rev_upt_greatest [OF f this that(1)] show ?thesis by simp
  qed
  then show ?thesis by blast
qed

text \<open>
  A prefix of the text that is no longer than the prepend stays whole in the first chunk,
  when every boundary token that begins in it ends exactly with it.
\<close>

lemma split_from_first:
  assumes ok: "split_from M ch pre app True (fo @ body) = Inr cs"
    and pre: "length fo \<le> length pre"
    and tok: "\<forall>j<length fo. token_at ch (fo @ body) j \<longrightarrow> j + length ch = length fo"
  shows "prefix fo (hd cs)"
proof (cases "length (fo @ body) \<le> M")
  case True
  with ok have "cs = [fo @ body]"
    by (simp add: split_from.simps [of M ch pre app True "fo @ body"])
  then show ?thesis by simp
next
  case False
  then have big: "\<not> length (if True then [] else pre) + length (fo @ body) \<le> M" by simp
  from split_from_step [OF ok big] obtain k rest where
    k: "cut_point ch (M - length app) (fo @ body) = Some k"
    and rest: "split_from M ch pre app False (drop k (fo @ body)) = Inr rest"
    and cs: "cs = (take k (fo @ body) @ app) # rest"
    and long: "length app < length (drop k (fo @ body))"
    by auto
  have room: "length pre + length app < M"
  proof (cases "length pre + length (drop k (fo @ body)) \<le> M")
    case True
    with long show ?thesis by simp
  next
    case False
    then have "\<not> length (if False then [] else pre) + length (drop k (fo @ body)) \<le> M" by simp
    from split_from_step [OF rest this] show ?thesis by auto
  qed
  have "length fo \<le> k"
  proof (rule ccontr)
    assume "\<not> length fo \<le> k"
    then have less: "k < length fo" by simp
    from cut_point_cases [OF k] show False
    proof
      assume a: "length ch \<le> k \<and> token_at ch (fo @ body) (k - length ch)"
      with less have "k - length ch < length fo" by simp
      with tok a have "k - length ch + length ch = length fo" by blast
      with a less show False by simp
    next
      assume "\<forall>k'. k < k' \<and> k' \<le> M - length app \<longrightarrow> inside_token ch (fo @ body) k'"
      moreover from room pre have "length fo \<le> M - length app" by simp
      ultimately have "inside_token ch (fo @ body) (length fo)"
        using less by blast
      then obtain j where "j < length fo" and "length fo < j + length ch"
        and "token_at ch (fo @ body) j"
        by (auto simp add: inside_token_def list_ex_iff)
      with tok show False by auto
    qed
  qed
  then have "prefix fo (take k (fo @ body))"
    by (simp add: prefix_def)
  then show ?thesis
    by (simp add: cs prefix_def) (metis append.assoc)
qed

lemma token_at_char:
  assumes "c \<notin> set (butlast fo)" and "j < length fo" and "token_at [c] (fo @ body) j"
  shows "j + length [c] = length fo"
proof (rule ccontr)
  assume "j + length [c] \<noteq> length fo"
  with assms(2) have j: "j < length (butlast fo)" by simp
  from assms(2,3) have "fo ! j = c"
    by (simp add: token_at_def take_Suc_conv_app_nth hd_drop_conv_nth [symmetric] take_Suc nth_append)
  with j have "c \<in> set (butlast fo)"
    by (metis nth_butlast nth_mem)
  with assms(1) show False by simp
qed

section \<open>One embed dialect per payload\<close>

text \<open>
  C1. The payload built by \<^verbatim>\<open>resolveData\<close> never has both \<^verbatim>\<open>embed\<close> and \<^verbatim>\<open>embeds\<close> populated.
  For a target with the webhook or the interaction facet, \<^verbatim>\<open>embeds\<close> is the array of the
  normalised embeds (possibly empty) and \<^verbatim>\<open>embed\<close> is \<^verbatim>\<open>undefined\<close>; for every other
  target \<^verbatim>\<open>embeds\<close> is \<^verbatim>\<open>undefined\<close> and \<^verbatim>\<open>embed\<close> is \<^verbatim>\<open>null\<close> when the option is \<^verbatim>\<open>null\<close>,
  and otherwise the first normalised embed (\<^verbatim>\<open>undefined\<close> when there is none).
\<close>

theorem resolveData_embed_or_embeds:
  assumes "data this = None" and "resolveData h this = Inr this'"
  shows "\<exists>d els js. data this' = Some d \<and> embedLikes this = Inr els \<and>
           mapE (embed_toJSON h) els = Inr js \<and>
           (if isWebhook this \<or> isInteraction this
            then lookup d ''embeds'' = Arr js \<and> lookup d ''embed'' = Undefined
            else lookup d ''embeds'' = Undefined \<and>
                 lookup d ''embed'' =
                   (if lookup (options this) ''embed'' = Null then Null else nth_or_undefined js 0)) \<and>
           \<not> (lookup d ''embed'' \<noteq> Undefined \<and> lookup d ''embeds'' \<noteq> Undefined)"
proof -
  from resolveData_Inr [OF assms] obtain content nonce els embeds components flags am mr
    where els: "embedLikes this = Inr els" and js: "mapE (embed_toJSON h) els = Inr embeds"
      and this': "this' = this\<lparr>data := Some (payload this content nonce embeds components flags am mr)\<rparr>"
    by blast
  show ?thesis
    by (rule exI [of _ "payload this content nonce embeds components flags am mr"],
        rule exI [of _ els], rule exI [of _ embeds])
       (simp add: this' els js payload_lookups)
qed

theorem resolveData_embed_or_embeds_witness:
  "(\<exists>this' d. resolveData spec_deps (new_APIMessage webhook_target both_embeds) = Inr this' \<and>
       data this' = Some d \<and>
       lookup d ''embeds'' = Arr [Obj [(''title'', Str ''a'')], Obj [(''title'', Str ''b'')]] \<and>
       lookup d ''embed'' = Undefined) \<and>
   (\<exists>this' d. resolveData spec_deps (new_APIMessage channel_target both_embeds) = Inr this' \<and>
       data this' = Some d \<and>
       lookup d ''embeds'' = Undefined \<and>
       lookup d ''embed'' = Obj [(''title'', Str ''one'')])"
proof -
  have w: "\<not> isl (resolveData spec_deps (new_APIMessage webhook_target both_embeds))"
    by code_simp
  have c: "\<not> isl (resolveData spec_deps (new_APIMessage channel_target both_embeds))"
    by code_simp
  from w obtain tw where tw: "resolveData spec_deps (new_APIMessage webhook_target both_embeds) = Inr tw"
    by (cases "resolveData spec_deps (new_APIMessage webhook_target both_embeds)") auto
  from c obtain tc where tc: "resolveData spec_deps (new_APIMessage channel_target both_embeds) = Inr tc"
    by (cases "resolveData spec_deps (new_APIMessage channel_target both_embeds)") auto
  have nw: "data (new_APIMessage webhook_target both_embeds) = None"
    and nc: "data (new_APIMessage channel_target both_embeds) = None"
    by (simp_all add: new_APIMessage_def)
  have ew: "embedLikes (new_APIMessage webhook_target both_embeds)
              = Inr [Obj [(''title'', Str ''a'')], Obj [(''title'', Str ''b'')]]"
    by code_simp
  have ec: "embedLikes (new_APIMessage channel_target both_embeds) = Inr [Obj [(''title'', Str ''one'')]]"
    by code_simp
  have fw: "isWebhook (new_APIMessage webhook_target both_embeds)"
    and fc: "\<not> isWebhook (new_APIMessage channel_target both_embeds)"
            "\<not> isInteraction (new_APIMessage channel_target both_embeds)"
    by code_simp+
  have oc: "lookup (options (new_APIMessage channel_target both_embeds)) ''embed'' \<noteq> Null"
    by code_simp
  have j: "embed_toJSON spec_deps = Inr"
    by (simp add: spec_deps_def)
  from resolveData_embed_or_embeds [OF nw tw] ew fw j
  have 1: "\<exists>d. data tw = Some d \<and>
       lookup d ''embeds'' = Arr [Obj [(''title'', Str ''a'')], Obj [(''title'', Str ''b'')]] \<and>
       lookup d ''embed'' = Undefined"
    by auto
  from resolveData_embed_or_embeds [OF nc tc] ec fc oc j
  have 2: "\<exists>d. data tc = Some d \<and> lookup d ''embeds'' = Undefined \<and>
       lookup d ''embed'' = Obj [(''title'', Str ''one'')]"
    by (auto simp add: nth_or_undefined_def)
  from 1 2 tw tc show ?thesis by simp
qed

section \<open>The content formatter on absent content\<close>

text \<open>
  C2. For every options value, \<^verbatim>\<open>makeContent\<close> maps an explicitly \<^verbatim>\<open>null\<close> content to the
  empty string and an absent (\<^verbatim>\<open>undefined\<close>) content to \<^verbatim>\<open>undefined\<close>, whatever the other
  options (\<^verbatim>\<open>split\<close>, \<^verbatim>\<open>code\<close>) and the collaborators are.
\<close>

theorem makeContent_null_undefined:
  "(lookup (options this) ''content'' = Null \<longrightarrow> makeContent h this = Inr (Str [])) \<and>
   (lookup (options this) ''content'' = Undefined \<longrightarrow> makeContent h this = Inr Undefined)"
  by (simp add: makeContent_def Let_def)

theorem makeContent_null_undefined_witness:
  "makeContent spec_deps
     (new_APIMessage channel_target [(''content'', Null), (''code'', Str ''js''), (''split'', Bool True)])
     = Inr (Str []) \<and>
   makeContent spec_deps (new_APIMessage channel_target [(''tts'', Bool True)]) = Inr Undefined"
  using makeContent_null_undefined
          [of "new_APIMessage channel_target [(''content'', Null), (''code'', Str ''js''), (''split'', Bool True)]" spec_deps]
        makeContent_null_undefined
          [of "new_APIMessage channel_target [(''tts'', Bool True)]" spec_deps]
  by (simp add: new_APIMessage_def lookup_def)

section \<open>The splitter of instances\<close>

text \<open>
  What \<^verbatim>\<open>split\<close> returns. It first makes sure the payload is built. When the built
  content is an array of chunks it returns one new instance per chunk, each bound to the
  target of the receiver and with no files: the instance of the last chunk carries the
  whole payload and the whole options of the receiver with \<^verbatim>\<open>content\<close> overwritten by that
  chunk; the instance of every other chunk carries a payload with the three keys
  \<^verbatim>\<open>content\<close>, \<^verbatim>\<open>tts\<close> and \<^verbatim>\<open>allowed_mentions\<close>, the last of them read from the option
  \<^verbatim>\<open>allowedMentions\<close> as the caller gave it. When the built content is not an array the
  result is the one-element sequence holding the receiver itself.
\<close>

lemma split_instances:
  assumes "split h this = Inr (this1, ms)"
  shows "\<exists>d. data this1 = Some d \<and> target this1 = target this \<and> options this1 = options this \<and>
           (if data this = None then resolveData h this = Inr this1 else this1 = this) \<and>
           (case lookup d ''content'' of
              Arr cs \<Rightarrow>
                length ms = length cs \<and>
                (\<forall>i<length cs.
                   target (ms ! i) = target this \<and> files (ms ! i) = None \<and>
                   (if i = length cs - 1
                    then data (ms ! i) = Some (AList.update ''content'' (cs ! i) d) \<and>
                         options (ms ! i) = AList.update ''content'' (cs ! i) (options this)
                    else data (ms ! i) =
                           Some [(''content'', cs ! i), (''tts'', lookup d ''tts''),
                                 (''allowed_mentions'', lookup (options this) ''allowedMentions'')] \<and>
                         options (ms ! i) =
                           [(''content'', cs ! i), (''tts'', lookup d ''tts''),
                            (''allowedMentions'', lookup (options this) ''allowedMentions'')]))
            | _ \<Rightarrow> ms = [this1])"
proof -
  from split_Inr [OF assms] obtain d
    where built: "if data this = None then resolveData h this = Inr this1 else this1 = this"
      and d: "data this1 = Some d"
      and ms: "ms = (case lookup d ''content'' of
                   Arr cs \<Rightarrow> map (split_at this1 d cs) [0..<length cs]
                 | _ \<Rightarrow> [this1])"
    by blast
  from built have keep: "target this1 = target this" "options this1 = options this"
    by (auto simp add: resolveData_keeps split: if_splits)
  have chunks: "case lookup d ''content'' of
              Arr cs \<Rightarrow>
                length ms = length cs \<and>
                (\<forall>i<length cs.
                   target (ms ! i) = target this \<and> files (ms ! i) = None \<and>
                   (if i = length cs - 1
                    then data (ms ! i) = Some (AList.update ''content'' (cs ! i) d) \<and>
                         options (ms ! i) = AList.update ''content'' (cs ! i) (options this)
                    else data (ms ! i) =
                           Some [(''content'', cs ! i), (''tts'', lookup d ''tts''),
                                 (''allowed_mentions'', lookup (options this) ''allowedMentions'')] \<and>
                         options (ms ! i) =
                           [(''content'', cs ! i), (''tts'', lookup d ''tts''),
                            (''allowedMentions'', lookup (options this) ''allowedMentions'')]))
            | _ \<Rightarrow> ms = [this1]"
  proof (cases "lookup d ''content''")
    case (Arr cs)
    with ms have m: "ms = map (split_at this1 d cs) [0..<length cs]" by simp
    have "\<And>i. i < length cs \<Longrightarrow> ms ! i = split_at this1 d cs i"
      by (simp add: m)
    then show ?thesis
      using keep by (simp add: Arr m split_at_def new_APIMessage_def)
  qed (simp_all add: ms)
  show ?thesis
    by (rule exI [of _ d]) (intro conjI d keep built chunks)
qed

text \<open>
  C3. Every instance but the last is to carry the \<^verbatim>\<open>content\<close>, \<^verbatim>\<open>tts\<close> and \<^verbatim>\<open>allowed_mentions\<close>
  of the payload. The code takes the \<^verbatim>\<open>allowed_mentions\<close> of these instances from the
  option \<^verbatim>\<open>allowedMentions\<close> instead of the built payload. On a channel whose client sets the
  default policy \<^verbatim>\<open>{parse: [], repliedUser: true}\<close>, a message without the option is split
  in more than one instance; the payload and the last instance carry the policy, with
  \<^verbatim>\<open>repliedUser\<close> stored under \<^verbatim>\<open>replied_user\<close>, and the first instance carries none. With
  the option \<^verbatim>\<open>{repliedUser: true}\<close> the first instance carries the key \<^verbatim>\<open>repliedUser\<close> as
  given, where the payload has \<^verbatim>\<open>replied_user\<close>.
\<close>

theorem split_loses_mention_policy:
  "lookup (built spec_deps (new_APIMessage defaults_target long_message)) ''allowed_mentions''
     = Obj [(''parse'', Arr []), (''replied_user'', Bool True)] \<and>
   1 < length (split_data spec_deps (new_APIMessage defaults_target long_message)) \<and>
   lookup (last (split_data spec_deps (new_APIMessage defaults_target long_message))) ''allowed_mentions''
     = Obj [(''parse'', Arr []), (''replied_user'', Bool True)] \<and>
   lookup (hd (split_data spec_deps (new_APIMessage defaults_target long_message))) ''allowed_mentions''
     = Undefined \<and>
   lookup (hd (split_data spec_deps
       (new_APIMessage channel_target
          (AList.update ''allowedMentions'' (Obj [(''repliedUser'', Bool True)]) long_message))))
       ''allowed_mentions''
     = Obj [(''repliedUser'', Bool True)] \<and>
   lookup (built spec_deps
       (new_APIMessage channel_target
          (AList.update ''allowedMentions'' (Obj [(''repliedUser'', Bool True)]) long_message)))
       ''allowed_mentions''
     = Obj [(''replied_user'', Bool True)]"
  by code_simp

section \<open>Allowed mentions\<close>

text \<open>
  C4, as amended. \<^verbatim>\<open>resolveData\<close> selects the allowed-mentions configuration: the explicit
  option unless it is \<^verbatim>\<open>undefined\<close>, else the default of the client. The payload's
  \<^verbatim>\<open>allowed_mentions\<close> is \<^verbatim>\<open>undefined\<close> whenever both the built \<^verbatim>\<open>content\<close> and the resolved
  \<^verbatim>\<open>message_reference\<close> are \<^verbatim>\<open>undefined\<close>. Otherwise it is the selected configuration: when
  that is truthy, a clone of it in which \<^verbatim>\<open>replied_user\<close> holds what \<^verbatim>\<open>repliedUser\<close>
  held, the key \<^verbatim>\<open>repliedUser\<close> is gone and every other key is kept; when it is falsy
  (in particular \<^verbatim>\<open>undefined\<close>, because neither the option nor the client sets one), the
  selected value itself.
\<close>

theorem resolveData_allowed_mentions:
  assumes "data this = None" and "resolveData h this = Inr this'"
    and "sel = (if lookup (options this) ''allowedMentions'' = Undefined
                then client_allowedMentions (target this)
                else lookup (options this) ''allowedMentions'')"
  shows "\<exists>d. data this' = Some d \<and>
           (if lookup d ''content'' = Undefined \<and> lookup d ''message_reference'' = Undefined
            then lookup d ''allowed_mentions'' = Undefined
            else if truthy sel
            then (\<exists>ps am. cloneObject h sel = Inr ps \<and> lookup d ''allowed_mentions'' = Obj am \<and>
                    lookup am ''replied_user'' = lookup ps ''repliedUser'' \<and>
                    ''repliedUser'' \<notin> set (map fst am) \<and>
                    (\<forall>k. k \<noteq> ''replied_user'' \<and> k \<noteq> ''repliedUser'' \<longrightarrow> lookup am k = lookup ps k))
            else lookup d ''allowed_mentions'' = sel)"
proof -
  from resolveData_Inr [OF assms(1,2)] obtain content nonce els embeds components flags am mr
    where am: "resolve_allowedMentions h this = Inr am"
      and this': "this' = this\<lparr>data := Some (payload this content nonce embeds components flags am mr)\<rparr>"
    by blast
  have sel: "selected_allowedMentions this = sel"
    by (simp add: selected_allowedMentions_def assms(3))
  show ?thesis
  proof (cases "truthy sel")
    case True
    with am sel obtain ps where ps: "cloneObject h sel = Inr ps" and am_eq: "am = Obj (rename_repliedUser ps)"
      by (auto simp add: resolve_allowedMentions_def Let_def bindE_Inr_iff)
    show ?thesis
      using True ps am_eq rename_repliedUser_props [where ps = ps]
      by (auto simp add: this' payload_lookups simp del: set_map)
  next
    case False
    with am sel have "am = sel"
      by (simp add: resolve_allowedMentions_def Let_def)
    with False show ?thesis
      by (simp add: this' payload_lookups)
  qed
qed

text \<open>
  The selected configuration can itself be \<^verbatim>\<open>undefined\<close>: a plain \<^verbatim>\<open>{content: 'hi'}\<close> sent to a
  channel whose client has no default builds a payload whose \<^verbatim>\<open>allowed_mentions\<close> is
  \<^verbatim>\<open>undefined\<close> although its \<^verbatim>\<open>content\<close> is not.
\<close>

theorem allowed_mentions_counterexample:
  "\<not> isl (resolveData spec_deps (new_APIMessage channel_target [(''content'', Str ''hi'')])) \<and>
   \<not> (lookup (built spec_deps (new_APIMessage channel_target [(''content'', Str ''hi'')])) ''allowed_mentions'' = Undefined
       \<longleftrightarrow> lookup (built spec_deps (new_APIMessage channel_target [(''content'', Str ''hi'')])) ''content'' = Undefined \<and>
           lookup (built spec_deps (new_APIMessage channel_target [(''content'', Str ''hi'')])) ''message_reference'' = Undefined)"
  by code_simp

theorem resolveData_allowed_mentions_witness:
  "\<exists>am. lookup (built spec_deps (new_APIMessage message_target reply_42)) ''allowed_mentions'' = Obj am \<and>
         lookup am ''replied_user'' = Bool True \<and> ''repliedUser'' \<notin> set (map fst am)"
proof -
  let ?m = "new_APIMessage message_target reply_42"
  have "\<not> isl (resolveData spec_deps ?m)" by code_simp
  then obtain a where a: "resolveData spec_deps ?m = Inr a" by (rule succeeds)
  have n: "data ?m = None" by (simp add: new_APIMessage_def)
  have sel: "Obj [(''repliedUser'', Bool True)] =
               (if lookup (options ?m) ''allowedMentions'' = Undefined
                then client_allowedMentions (target ?m)
                else lookup (options ?m) ''allowedMentions'')"
    by (simp add: new_APIMessage_def reply_42_def lookup_def)
  from resolveData_allowed_mentions [OF n a sel] obtain d where d: "data a = Some d"
    and p: "if lookup d ''content'' = Undefined \<and> lookup d ''message_reference'' = Undefined
            then lookup d ''allowed_mentions'' = Undefined
            else if truthy (Obj [(''repliedUser'', Bool True)])
            then (\<exists>ps am. cloneObject spec_deps (Obj [(''repliedUser'', Bool True)]) = Inr ps \<and>
                    lookup d ''allowed_mentions'' = Obj am \<and>
                    lookup am ''replied_user'' = lookup ps ''repliedUser'' \<and>
                    ''repliedUser'' \<notin> set (map fst am) \<and>
                    (\<forall>k. k \<noteq> ''replied_user'' \<and> k \<noteq> ''repliedUser'' \<longrightarrow> lookup am k = lookup ps k))
            else lookup d ''allowed_mentions'' = Obj [(''repliedUser'', Bool True)]"
    by blast
  have "lookup (built spec_deps ?m) ''message_reference'' \<noteq> Undefined" by code_simp
  then have mr: "lookup d ''message_reference'' \<noteq> Undefined"
    unfolding built_eq [OF a d] .
  have cl: "cloneObject spec_deps (Obj [(''repliedUser'', Bool True)]) = Inr [(''repliedUser'', Bool True)]"
    by (simp add: spec_deps_def)
  from p mr cl show ?thesis
    unfolding built_eq [OF a d] by (auto simp add: lookup_def simp del: set_map)
qed

section \<open>Reply resolution\<close>

text \<open>
  C5. When \<^verbatim>\<open>reply\<close> is an object and the target has the message collection of its dialect
  (the channel's for a message target, the target's own otherwise), \<^verbatim>\<open>resolveData\<close>
  resolves \<^verbatim>\<open>reply.messageReference\<close> through it. A truthy identifier gives the payload the
  \<^verbatim>\<open>message_reference\<close> \<^verbatim>\<open>{message_id, fail_if_not_exists}\<close>, where \<^verbatim>\<open>fail_if_not_exists\<close> is
  \<^verbatim>\<open>true\<close> when \<^verbatim>\<open>failIfNotExists\<close> is absent. Without an identifier \<^verbatim>\<open>message_reference\<close> is
  \<^verbatim>\<open>undefined\<close> and the miss raises nothing: the call ends exactly as the same call
  without the \<^verbatim>\<open>reply\<close> option does, with the same payload or the same error.
\<close>

theorem resolveData_message_reference:
  assumes "data this = None"
    and "lookup (options this) ''reply'' = Obj r"
    and "(if isMessage this then channel_messages (target this) else messages (target this)) = Some resolveID"
  shows "(\<forall>this'. resolveData h this = Inr this' \<longrightarrow>
            (\<exists>d. data this' = Some d \<and>
               lookup d ''message_reference'' =
                 (if truthy (resolveID (lookup r ''messageReference''))
                  then Obj [(''message_id'', resolveID (lookup r ''messageReference'')),
                            (''fail_if_not_exists'',
                               if lookup r ''failIfNotExists'' = Undefined \<or> lookup r ''failIfNotExists'' = Null
                               then Bool True else lookup r ''failIfNotExists'')]
                  else Undefined))) \<and>
         (\<not> truthy (resolveID (lookup r ''messageReference'')) \<longrightarrow>
            map_sum id data (resolveData h this) =
            map_sum id data (resolveData h (this\<lparr>options := AList.delete ''reply'' (options this)\<rparr>)))"
proof (intro conjI allI impI)
  have mr: "resolve_message_reference this =
          Inr (if truthy (resolveID (lookup r ''messageReference''))
                  then Obj [(''message_id'', resolveID (lookup r ''messageReference'')),
                            (''fail_if_not_exists'',
                               if lookup r ''failIfNotExists'' = Undefined \<or> lookup r ''failIfNotExists'' = Null
                               then Bool True else lookup r ''failIfNotExists'')]
                  else Undefined)"
    using assms(2,3) by (simp add: resolve_message_reference_def message_collection_def Let_def nullish_def)
  {
    fix this'
    assume "resolveData h this = Inr this'"
    from resolveData_Inr [OF assms(1) this] mr
    show "\<exists>d. data this' = Some d \<and>
               lookup d ''message_reference'' =
                 (if truthy (resolveID (lookup r ''messageReference''))
                  then Obj [(''message_id'', resolveID (lookup r ''messageReference'')),
                            (''fail_if_not_exists'',
                               if lookup r ''failIfNotExists'' = Undefined \<or> lookup r ''failIfNotExists'' = Null
                               then Bool True else lookup r ''failIfNotExists'')]
                  else Undefined)"
      by (auto simp add: payload_lookups)
  }
  assume miss: "\<not> truthy (resolveID (lookup r ''messageReference''))"
  let ?that = "this\<lparr>options := AList.delete ''reply'' (options this)\<rparr>"
  have f: "isWebhook ?that = isWebhook this" "isInteraction ?that = isInteraction this"
          "isMessage ?that = isMessage this"
    by (simp_all add: isWebhook_def isInteraction_def isMessage_def)
  have l: "\<And>k. k \<noteq> ''reply'' \<Longrightarrow> lookup (options ?that) k = lookup (options this) k"
    by (simp add: lookup_delete)
  have 1: "makeContent h ?that = makeContent h this"
    by (simp add: makeContent_def isSplit_def isCode_def codeName_def lookup_delete Let_def
          cong: jsval.case_cong if_cong)
  have 2: "resolve_nonce ?that = resolve_nonce this"
    by (simp add: resolve_nonce_def lookup_delete)
  have 3: "embedLikes ?that = embedLikes this"
    by (simp add: embedLikes_def f lookup_delete)
  have 4: "resolve_components h ?that = resolve_components h this"
    by (simp add: resolve_components_def lookup_delete)
  have 5: "resolve_flags h ?that = resolve_flags h this"
    by (simp add: resolve_flags_def f lookup_delete)
  have 6: "resolve_allowedMentions h ?that = resolve_allowedMentions h this"
    by (simp add: resolve_allowedMentions_def selected_allowedMentions_def lookup_delete)
  have 7: "resolve_message_reference ?that = Inr Undefined"
    by (simp add: resolve_message_reference_def lookup_delete)
  have 8: "resolve_message_reference this = Inr Undefined"
    using mr miss by simp
  show "map_sum id data (resolveData h this) = map_sum id data (resolveData h ?that)"
    by (rule resolveData_data_cong)
       (simp_all add: assms(1) 1 2 3 4 5 6 7 8 f lookup_delete)
qed

theorem resolveData_message_reference_witness:
  "lookup (built spec_deps
      (new_APIMessage channel_target [(''reply'', Obj [(''messageReference'', Str ''42'')])]))
      ''message_reference''
     = Obj [(''message_id'', Str ''42''), (''fail_if_not_exists'', Bool True)] \<and>
   map_sum id data (resolveData spec_deps
      (new_APIMessage channel_target
         [(''content'', Str ''hi''), (''reply'', Obj [(''messageReference'', Num 7)])]))
     = map_sum id data (resolveData spec_deps (new_APIMessage channel_target [(''content'', Str ''hi'')])) \<and>
   \<not> isl (resolveData spec_deps
      (new_APIMessage channel_target
         [(''content'', Str ''hi''), (''reply'', Obj [(''messageReference'', Num 7)])]))"
proof -
  let ?hit = "new_APIMessage channel_target [(''reply'', Obj [(''messageReference'', Str ''42'')])]"
  let ?miss = "new_APIMessage channel_target
                 [(''content'', Str ''hi''), (''reply'', Obj [(''messageReference'', Num 7)])]"
  have n: "data ?hit = None" "data ?miss = None"
    by (simp_all add: new_APIMessage_def)
  have r: "lookup (options ?hit) ''reply'' = Obj [(''messageReference'', Str ''42'')]"
          "lookup (options ?miss) ''reply'' = Obj [(''messageReference'', Num 7)]"
    by (simp_all add: new_APIMessage_def lookup_def)
  have c: "(if isMessage ?hit then channel_messages (target ?hit) else messages (target ?hit))
             = Some resolveID_strings"
          "(if isMessage ?miss then channel_messages (target ?miss) else messages (target ?miss))
             = Some resolveID_strings"
    by (simp_all add: new_APIMessage_def channel_target_def isMessage_def instanceof_def)
  have "\<not> isl (resolveData spec_deps ?hit)" by code_simp
  then obtain a where a: "resolveData spec_deps ?hit = Inr a" by (rule succeeds)
  from resolveData_message_reference [OF n(1) r(1) c(1), of spec_deps] a
  obtain d where d: "data a = Some d"
    and "lookup d ''message_reference'' = Obj [(''message_id'', Str ''42''), (''fail_if_not_exists'', Bool True)]"
    by (auto simp add: lookup_def resolveID_strings_def)
  then have 1: "lookup (built spec_deps ?hit) ''message_reference''
                  = Obj [(''message_id'', Str ''42''), (''fail_if_not_exists'', Bool True)]"
    unfolding built_eq [OF a d] by simp
  have del: "?miss\<lparr>options := AList.delete ''reply'' (options ?miss)\<rparr>
               = new_APIMessage channel_target [(''content'', Str ''hi'')]"
    by (simp add: new_APIMessage_def)
  from resolveData_message_reference [OF n(2) r(2) c(2), of spec_deps]
  have 2: "map_sum id data (resolveData spec_deps ?miss)
             = map_sum id data (resolveData spec_deps (new_APIMessage channel_target [(''content'', Str ''hi'')]))"
    unfolding del by (simp add: lookup_def resolveID_strings_def)
  have 3: "\<not> isl (resolveData spec_deps ?miss)" by code_simp
  from 1 2 3 show ?thesis by simp
qed

section \<open>Code fences and splitting\<close>

text \<open>
  C6, as amended. For a non-empty string content with the \<^verbatim>\<open>code\<close> option set, \<^verbatim>\<open>makeContent\<close>
  wraps the cleaned content in a fenced code block that opens with the language tag
  (the empty tag when \<^verbatim>\<open>code\<close> is not a string) and returns it when \<^verbatim>\<open>split\<close> is off. When
  \<^verbatim>\<open>split\<close> is on, the fenced content goes to the splitter with a configuration whose
  \<^verbatim>\<open>prepend\<close> is the caller's \<^verbatim>\<open>prepend\<close> (empty when falsy) followed by the opening fence and
  whose \<^verbatim>\<open>append\<close> is the closing fence followed by the caller's \<^verbatim>\<open>append\<close>; \<^verbatim>\<open>maxLength\<close> and
  the boundary token are the caller's. With the splitter of the specification the chunks
  are then the pieces of the fenced content, in order, dressed with that prepend and
  append, and: no chunk is longer than the maximum length; every chunk but the first
  starts with the caller's \<^verbatim>\<open>prepend\<close> followed by the opening fence; every chunk but the
  last ends with the closing fence followed by the caller's \<^verbatim>\<open>append\<close>; the last chunk ends
  with the closing fence; and the first chunk starts with the opening fence when every
  boundary token that begins inside the opening fence ends exactly where the fence ends,
  as the default newline does for a tag without newlines. So with no \<^verbatim>\<open>prepend\<close> and no
  \<^verbatim>\<open>append\<close> of the caller's own and such a boundary token, every chunk starts with the
  opening fence and ends with the closing fence.
\<close>

theorem makeContent_code_fence:
  assumes "lookup (options this) ''content'' = Str s" and "s \<noteq> []"
    and "verifyString h (Str s) = Inr (Str s)"
    and "isCode (options this)"
    and "splitMessage h = spec_splitMessage limit"
    and "cn = (case lookup (options this) ''code'' of Str n \<Rightarrow> n | _ \<Rightarrow> [])"
    and "fenced = fence_open cn @ cleanCodeBlockContent h s @ fence_close"
    and "so = spread_obj (lookup (options this) ''split'')"
    and "pre = to_str (number_to_string h) (js_or (lookup so ''prepend'') (Str []))"
    and "app = to_str (number_to_string h) (js_or (lookup so ''append'') (Str []))"
  shows "if isSplit (options this)
         then (\<exists>so'. makeContent h this =
                        bindE (spec_splitMessage limit fenced so') (\<lambda>cs. Inr (Arr (map Str cs))) \<and>
                  cfg_prepend so' = pre @ fence_open cn \<and>
                  cfg_append so' = fence_close @ app \<and>
                  cfg_maxLength limit so' = cfg_maxLength limit so \<and>
                  cfg_char so' = cfg_char so) \<and>
              (\<forall>cs. makeContent h this = Inr (Arr (map Str cs)) \<longrightarrow>
                 (\<exists>ps. ps \<noteq> [] \<and> concat ps = fenced \<and>
                       cs = dress (pre @ fence_open cn) (fence_close @ app) True ps) \<and>
                 list_all (\<lambda>c. length c \<le> cfg_maxLength limit so) cs \<and>
                 list_all (prefix (pre @ fence_open cn)) (tl cs) \<and>
                 list_all (suffix (fence_close @ app)) (butlast cs) \<and>
                 suffix fence_close (last cs) \<and>
                 ((\<forall>j<length (fence_open cn).
                      token_at (cfg_char so) fenced j \<longrightarrow>
                      j + length (cfg_char so) = length (fence_open cn)) \<longrightarrow>
                    prefix (fence_open cn) (hd cs) \<and>
                    (pre = [] \<and> app = [] \<longrightarrow>
                       list_all (\<lambda>c. prefix (fence_open cn) c \<and> suffix fence_close c) cs)))
         else makeContent h this = Inr (Str fenced)"
proof -
  have cn: "cn = codeName (options this)"
    by (simp add: assms(6) codeName_def)
  let ?so' = "inject_fence h cn so"
  let ?pre = "pre @ fence_open cn" and ?app = "fence_close @ app"
  let ?M = "cfg_maxLength limit so"
  have mc: "makeContent h this =
           (if isSplit (options this)
            then bindE (spec_splitMessage limit fenced ?so') (\<lambda>cs. Inr (Arr (map Str cs)))
            else Inr (Str fenced))"
    using makeContent_code [OF assms(1-4)] by (simp add: cn assms(5) assms(7) assms(8))
  show ?thesis
  proof (cases "isSplit (options this)")
    case False
    with mc show ?thesis by simp
  next
    case True
    with mc have run: "makeContent h this =
        bindE (spec_splitMessage limit fenced ?so') (\<lambda>cs. Inr (Arr (map Str cs)))"
      by simp
    have cfg: "cfg_prepend ?so' = ?pre" "cfg_append ?so' = ?app"
      "cfg_maxLength limit ?so' = ?M" "cfg_char ?so' = cfg_char so"
      by (simp_all add: inject_fence_cfg assms(9) assms(10))
    have chunks:
      "(\<exists>ps. ps \<noteq> [] \<and> concat ps = fenced \<and> cs = dress ?pre ?app True ps) \<and>
       list_all (\<lambda>c. length c \<le> ?M) cs \<and>
       list_all (prefix ?pre) (tl cs) \<and>
       list_all (suffix ?app) (butlast cs) \<and>
       suffix fence_close (last cs) \<and>
       ((\<forall>j<length (fence_open cn).
            token_at (cfg_char so) fenced j \<longrightarrow>
            j + length (cfg_char so) = length (fence_open cn)) \<longrightarrow>
          prefix (fence_open cn) (hd cs) \<and>
          (pre = [] \<and> app = [] \<longrightarrow>
             list_all (\<lambda>c. prefix (fence_open cn) c \<and> suffix fence_close c) cs))"
      if "makeContent h this = Inr (Arr (map Str cs))" for cs
    proof -
      from that run obtain cs' where cs': "spec_splitMessage limit fenced ?so' = Inr cs'"
        and "map Str cs' = map Str cs"
        by (auto simp add: bindE_Inr_iff)
      then have "cs' = cs"
        by (simp add: inj_map_eq_map inj_on_def)
      with cs' have sf: "split_from ?M (cfg_char so) ?pre ?app True fenced = Inr cs"
        by (simp add: spec_splitMessage_def cfg)
      note basic = split_from_chunks [OF sf]
      have last: "suffix fence_close (last cs)"
        by (rule split_from_last [OF sf]) (simp_all add: assms(7) suffix_def)
      have first: "prefix (fence_open cn) (hd cs)"
        if "\<forall>j<length (fence_open cn).
              token_at (cfg_char so) fenced j \<longrightarrow>
              j + length (cfg_char so) = length (fence_open cn)"
      proof -
        from sf have "split_from ?M (cfg_char so) ?pre ?app True
            (fence_open cn @ (cleanCodeBlockContent h s @ fence_close)) = Inr cs"
          by (simp add: assms(7))
        moreover have "length (fence_open cn) \<le> length ?pre" by simp
        moreover from that have "\<forall>j<length (fence_open cn).
              token_at (cfg_char so) (fence_open cn @ (cleanCodeBlockContent h s @ fence_close)) j \<longrightarrow>
              j + length (cfg_char so) = length (fence_open cn)"
          by (simp add: assms(7))
        ultimately show ?thesis by (rule split_from_first)
      qed
      have every: "list_all (\<lambda>c. prefix (fence_open cn) c \<and> suffix fence_close c) cs"
        if t: "\<forall>j<length (fence_open cn).
              token_at (cfg_char so) fenced j \<longrightarrow>
              j + length (cfg_char so) = length (fence_open cn)"
          and "pre = []" and "app = []"
      proof -
        from basic obtain x xs where x: "cs = x # xs" by (cases cs) auto
        from first [OF t] have "prefix (fence_open cn) x" by (simp add: x)
        moreover from basic that(2) have "list_all (prefix (fence_open cn)) xs"
          by (simp add: x)
        ultimately have p: "list_all (prefix (fence_open cn)) cs" by (simp add: x)
        from basic that(3) have "list_all (suffix fence_close) (butlast cs)" by simp
        with last have "list_all (suffix fence_close) (butlast cs @ [last cs])"
          by simp
        moreover from basic have "cs \<noteq> []" by simp
        then have "butlast cs @ [last cs] = cs"
          by (rule append_butlast_last_id)
        ultimately have "list_all (suffix fence_close) cs" by (simp only:)
        with p show ?thesis by (simp add: list_all_iff)
      qed
      from basic last first every split_from_pieces [OF sf] show ?thesis
        by blast
    qed
    from True run cfg chunks show ?thesis
      by (simp only: if_True) blast
  qed
qed

text \<open>
  With a \<^verbatim>\<open>prepend\<close> of the caller's own the second chunk starts with that prepend, not with
  the opening fence; and with the backtick as boundary token the first chunk does not
  start with the opening fence.
\<close>

theorem makeContent_code_fence_counterexample:
  "1 < length (chunks_of (makeContent spec_deps (new_APIMessage channel_target prepended_message))) \<and>
   prefix (''X'' @ fence_open ''js'')
     (chunks_of (makeContent spec_deps (new_APIMessage channel_target prepended_message)) ! 1) \<and>
   \<not> prefix (fence_open ''js'')
     (chunks_of (makeContent spec_deps (new_APIMessage channel_target prepended_message)) ! 1) \<and>
   chunks_of (makeContent spec_deps (new_APIMessage channel_target backtick_message)) \<noteq> [] \<and>
   \<not> prefix (fence_open ''js'')
     (hd (chunks_of (makeContent spec_deps (new_APIMessage channel_target backtick_message))))"
  by code_simp

text \<open>
  The default boundary token and no \<^verbatim>\<open>prepend\<close> or \<^verbatim>\<open>append\<close> of the caller's own: every chunk
  is fenced and within the limit.
\<close>

theorem makeContent_code_fence_witness:
  "isCode (options (new_APIMessage channel_target long_message)) \<and>
   isSplit (options (new_APIMessage channel_target long_message)) \<and>
   1 < length (chunks_of (makeContent spec_deps (new_APIMessage channel_target long_message))) \<and>
   list_all (\<lambda>c. length c \<le> 12 \<and> prefix (fence_open ''js'') c \<and> suffix fence_close c)
     (chunks_of (makeContent spec_deps (new_APIMessage channel_target long_message)))"
proof -
  let ?m = "new_APIMessage channel_target long_message"
  let ?s = "''a'' @ [CHR 0x0A] @ ''b''"
  let ?c0 = "fence_open ''js'' @ ''a'' @ [CHR 0x0A] @ fence_close"
  let ?c1 = "fence_open ''js'' @ ''b'' @ fence_close"
  let ?so = "[(''maxLength'', Num 12)]"
  let ?fenced = "fence_open ''js'' @ cleanCodeBlockContent spec_deps ?s @ fence_close"
  have mc: "makeContent spec_deps ?m = Inr (Arr (map Str [?c0, ?c1]))"
    by code_simp
  have o: "lookup (options ?m) ''content'' = Str ?s"
    "isCode (options ?m)"
    "''js'' = (case lookup (options ?m) ''code'' of Str n \<Rightarrow> n | _ \<Rightarrow> [])"
    "?so = spread_obj (lookup (options ?m) ''split'')"
    by (simp_all add: new_APIMessage_def long_message_def lookup_def isCode_def)
  have ne: "?s \<noteq> []" by simp
  have v: "verifyString spec_deps (Str ?s) = Inr (Str ?s)"
    by (simp add: spec_deps_def spec_verifyString_def)
  have sm: "splitMessage spec_deps = spec_splitMessage 2000"
    by (simp add: spec_deps_def)
  have p: "[] = to_str (number_to_string spec_deps) (js_or (lookup ?so ''prepend'') (Str []))"
    "[] = to_str (number_to_string spec_deps) (js_or (lookup ?so ''append'') (Str []))"
    by (simp_all add: lookup_def js_or_def)
  have sp: "isSplit (options ?m)"
    by (simp add: new_APIMessage_def long_message_def lookup_def isSplit_def)
  have ml: "cfg_maxLength 2000 ?so = 12"
    by (simp add: cfg_maxLength_def lookup_def)
  have ch: "cfg_char ?so = [CHR 0x0A]"
    by (simp add: cfg_char_def lookup_def)
  have tok: "\<forall>j<length (fence_open ''js'').
               token_at (cfg_char ?so) ?fenced j \<longrightarrow>
               j + length (cfg_char ?so) = length (fence_open ''js'')"
  proof (intro allI impI)
    fix j
    assume "j < length (fence_open ''js'')" and "token_at (cfg_char ?so) ?fenced j"
    then show "j + length (cfg_char ?so) = length (fence_open ''js'')"
      unfolding ch by (rule token_at_char [rotated]) (simp add: fence_open_def)
  qed
  note chunks = makeContent_code_fence [OF o(1) ne v o(2) sm o(3) refl o(4) p,
      unfolded if_P [OF sp], THEN conjunct2, rule_format, OF mc]
  from chunks have "list_all (\<lambda>c. length c \<le> cfg_maxLength 2000 ?so) [?c0, ?c1]"
    by blast
  then have len: "list_all (\<lambda>c. length c \<le> 12) [?c0, ?c1]"
    unfolding ml .
  from chunks tok
  have "list_all (\<lambda>c. prefix (fence_open ''js'') c \<and> suffix fence_close c) [?c0, ?c1]"
    by blast
  with len have "list_all (\<lambda>c. length c \<le> 12 \<and> prefix (fence_open ''js'') c \<and> suffix fence_close c)
      [?c0, ?c1]"
    by (simp add: list_all_iff)
  moreover have "chunks_of (makeContent spec_deps ?m) = [?c0, ?c1]"
    by (simp add: mc chunks_of_def)
  ultimately show ?thesis
    using o(2) sp by simp
qed

section \<open>File resolution\<close>

text \<open>
  C7. \<^verbatim>\<open>resolveFiles\<close> gathers the file-like inputs in declaration order: those of
  \<^verbatim>\<open>options.files\<close> first, then the files of each embed-like in the order of the
  embed-likes. All of them are resolved and the results are awaited together: whatever
  the order in which the resolutions settle, when every resolution succeeds the stored
  files are the resolved files in declaration order, and when any resolution fails the
  whole call fails with the error of a failed resolution, storing and returning no
  list at all. The outcome of a call that succeeds does not depend on the settling order.
\<close>

theorem resolveFiles_declaration_order:
  assumes "files this = None"
  shows "fileLikes this =
           bindE (embedLikes this) (\<lambda>els.
           bindE (if truthy (lookup (options this) ''files'')
                  then spread_iter (lookup (options this) ''files'') else Inr []) (\<lambda>fs.
           bindE (mapE files_of_embed els) (\<lambda>xss. Inr (fs @ concat xss)))) \<and>
         (\<forall>e. fileLikes this = Inl e \<longrightarrow> resolveFiles settled h this = Inl e) \<and>
         (\<forall>fls. fileLikes this = Inr fls \<longrightarrow>
            (if list_all (\<lambda>f. \<not> isl (resolveFile h f)) fls
             then resolveFiles settled h this =
                    Inr (this\<lparr>files := Some (map (\<lambda>f. projr (resolveFile h f)) fls)\<rparr>)
             else \<exists>f \<in> set fls. isl (resolveFile h f) \<and>
                    resolveFiles settled h this = Inl (projl (resolveFile h f)))) \<and>
         (\<forall>this'. resolveFiles settled h this = Inr this' \<longrightarrow>
            resolveFiles settled' h this = Inr this')"
proof (intro conjI allI impI)
  show "fileLikes this =
           bindE (embedLikes this) (\<lambda>els.
           bindE (if truthy (lookup (options this) ''files'')
                  then spread_iter (lookup (options this) ''files'') else Inr []) (\<lambda>fs.
           bindE (mapE files_of_embed els) (\<lambda>xss. Inr (fs @ concat xss))))"
    by (simp add: fileLikes_def embed_files_mapE bindE_def split: sum.splits)
next
  fix e
  assume "fileLikes this = Inl e"
  with assms show "resolveFiles settled h this = Inl e"
    by (simp add: resolveFiles_def)
next
  fix fls
  assume "fileLikes this = Inr fls"
  then show "if list_all (\<lambda>f. \<not> isl (resolveFile h f)) fls
        then resolveFiles settled h this =
               Inr (this\<lparr>files := Some (map (\<lambda>f. projr (resolveFile h f)) fls)\<rparr>)
        else \<exists>f \<in> set fls. isl (resolveFile h f) \<and>
               resolveFiles settled h this = Inl (projl (resolveFile h f))"
    by (rule resolveFiles_outcome [OF assms])
next
  fix this'
  assume r: "resolveFiles settled h this = Inr this'"
  show "resolveFiles settled' h this = Inr this'"
  proof (cases "fileLikes this")
    case (Inl e)
    with assms have "resolveFiles settled h this = Inl e"
      by (simp add: resolveFiles_def)
    with r show ?thesis by simp
  next
    case (Inr fls)
    show ?thesis
    proof (cases "list_all (\<lambda>f. \<not> isl (resolveFile h f)) fls")
      case True
      with resolveFiles_outcome [OF assms Inr, of h settled]
      have "this' = this\<lparr>files := Some (map (\<lambda>f. projr (resolveFile h f)) fls)\<rparr>"
        unfolding r by simp
      with True resolveFiles_outcome [OF assms Inr, of h settled'] show ?thesis
        by simp
    next
      case False
      with resolveFiles_outcome [OF assms Inr, of h settled]
      obtain f where "resolveFiles settled h this = Inl (projl (resolveFile h f))"
        by auto
      with r show ?thesis by simp
    qed
  qed
qed

theorem resolveFiles_declaration_order_witness:
  "map_sum id files (resolveFiles [2, 0, 1] spec_deps (new_APIMessage webhook_target three_files)) =
     Inr (Some
       [Obj [(''attachment'', Str ''A.png''), (''name'', Str ''A.png''), (''file'', Str ''A.png'')],
        Obj [(''attachment'', Str ''pics/b.png''), (''name'', Str ''B.png''), (''file'', Str ''pics/b.png'')],
        Obj [(''attachment'', Str ''img/C.png''), (''name'', Str ''C.png''), (''file'', Str ''img/C.png'')]]) \<and>
   isl (resolveFiles [2, 1, 0] spec_deps (new_APIMessage webhook_target bad_files)) \<and>
   isl (resolveFiles [0, 1, 2] spec_deps (new_APIMessage webhook_target bad_files))"
proof -
  let ?m = "new_APIMessage webhook_target three_files"
  let ?b = "new_APIMessage webhook_target bad_files"
  have n: "files ?m = None" "files ?b = None" by (simp_all add: new_APIMessage_def)
  have fm: "fileLikes ?m =
      Inr [Str ''A.png'', Obj [(''attachment'', Str ''pics/b.png''), (''name'', Str ''B.png'')],
           Str ''img/C.png'']"
    by code_simp
  have fb: "fileLikes ?b =
      Inr [Str ''A.png'', Null, Obj [(''attachment'', Null), (''name'', Str ''x'')]]"
    by code_simp
  have ok: "list_all (\<lambda>f. \<not> isl (resolveFile spec_deps f))
      [Str ''A.png'', Obj [(''attachment'', Str ''pics/b.png''), (''name'', Str ''B.png'')],
           Str ''img/C.png'']"
    by code_simp
  have bad: "\<not> list_all (\<lambda>f. \<not> isl (resolveFile spec_deps f))
      [Str ''A.png'', Null, Obj [(''attachment'', Null), (''name'', Str ''x'')]]"
    by code_simp
  have rs: "map (\<lambda>f. projr (resolveFile spec_deps f))
      [Str ''A.png'', Obj [(''attachment'', Str ''pics/b.png''), (''name'', Str ''B.png'')],
           Str ''img/C.png''] =
       [Obj [(''attachment'', Str ''A.png''), (''name'', Str ''A.png''), (''file'', Str ''A.png'')],
        Obj [(''attachment'', Str ''pics/b.png''), (''name'', Str ''B.png''), (''file'', Str ''pics/b.png'')],
        Obj [(''attachment'', Str ''img/C.png''), (''name'', Str ''C.png''), (''file'', Str ''img/C.png'')]]"
    by code_simp
  from resolveFiles_declaration_order [OF n(1), of "[2, 0, 1]" spec_deps "[]"] fm ok rs
  have 1: "map_sum id files (resolveFiles [2, 0, 1] spec_deps ?m) =
     Inr (Some
       [Obj [(''attachment'', Str ''A.png''), (''name'', Str ''A.png''), (''file'', Str ''A.png'')],
        Obj [(''attachment'', Str ''pics/b.png''), (''name'', Str ''B.png''), (''file'', Str ''pics/b.png'')],
        Obj [(''attachment'', Str ''img/C.png''), (''name'', Str ''C.png''), (''file'', Str ''img/C.png'')]])"
    by simp
  from resolveFiles_declaration_order [OF n(2), of "[2, 1, 0]" spec_deps "[]"] fb bad
  have 2: "isl (resolveFiles [2, 1, 0] spec_deps ?b)" by fastforce
  from resolveFiles_declaration_order [OF n(2), of "[0, 1, 2]" spec_deps "[]"] fb bad
  have 3: "isl (resolveFiles [0, 1, 2] spec_deps ?b)" by fastforce
  from 1 2 3 show ?thesis by simp
qed

section \<open>Flags\<close>

text \<open>
  C8. The \<^verbatim>\<open>flags\<close> field of the payload built by \<^verbatim>\<open>resolveData\<close>: for a message target (an
  edit) an explicit \<^verbatim>\<open>flags\<close> option wins (its resolved bit field), else the bit field of
  the target message is inherited; for any other target that is an interaction, a truthy
  \<^verbatim>\<open>ephemeral\<close> makes \<^verbatim>\<open>flags\<close> exactly the ephemeral bit; in every other case \<^verbatim>\<open>flags\<close> is
  unset, whatever \<^verbatim>\<open>ephemeral\<close> is.
\<close>

theorem resolveData_flags:
  assumes "data this = None" and "resolveData h this = Inr this'"
  shows "\<exists>d. data this' = Some d \<and>
           (if isMessage this then
              (if lookup (options this) ''flags'' \<noteq> Null \<and> lookup (options this) ''flags'' \<noteq> Undefined
               then flags_resolve h (lookup (options this) ''flags'') = Inr (lookup d ''flags'')
               else lookup d ''flags'' = flags_bitfield (target this))
            else if isInteraction this \<and> truthy (lookup (options this) ''ephemeral'')
            then lookup d ''flags'' = EPHEMERAL h
            else lookup d ''flags'' = Undefined)"
proof -
  from resolveData_Inr [OF assms] obtain content nonce els embeds components flags am mr
    where fl: "resolve_flags h this = Inr flags"
      and this': "this' = this\<lparr>data := Some (payload this content nonce embeds components flags am mr)\<rparr>"
    by blast
  from fl show ?thesis
    by (auto simp add: this' payload_lookups resolve_flags_def split: if_splits)
qed

theorem resolveData_flags_witness:
  "lookup (built spec_deps (new_APIMessage message_target [(''flags'', Num 2), (''ephemeral'', Bool True)])) ''flags'' = Num 2 \<and>
   lookup (built spec_deps (new_APIMessage message_target [(''ephemeral'', Bool True)])) ''flags'' = Num 4 \<and>
   lookup (built spec_deps (new_APIMessage interaction_target [(''ephemeral'', Bool True)])) ''flags'' = Num 64 \<and>
   lookup (built spec_deps (new_APIMessage channel_target [(''ephemeral'', Bool True)])) ''flags'' = Undefined"
proof -
  let ?m1 = "new_APIMessage message_target [(''flags'', Num 2), (''ephemeral'', Bool True)]"
  let ?m2 = "new_APIMessage message_target [(''ephemeral'', Bool True)]"
  let ?i = "new_APIMessage interaction_target [(''ephemeral'', Bool True)]"
  let ?c = "new_APIMessage channel_target [(''ephemeral'', Bool True)]"
  have s: "\<not> isl (resolveData spec_deps ?m1)" "\<not> isl (resolveData spec_deps ?m2)"
          "\<not> isl (resolveData spec_deps ?i)" "\<not> isl (resolveData spec_deps ?c)"
    by code_simp+
  have n: "data ?m1 = None" "data ?m2 = None" "data ?i = None" "data ?c = None"
    by (simp_all add: new_APIMessage_def)
  have f: "isMessage ?m1" "isMessage ?m2" "\<not> isMessage ?i" "isInteraction ?i"
          "\<not> isMessage ?c" "\<not> isInteraction ?c"
    by code_simp+
  have o: "lookup (options ?m1) ''flags'' = Num 2" "lookup (options ?m2) ''flags'' = Undefined"
          "truthy (lookup (options ?i) ''ephemeral'')"
    by code_simp+
  have t: "flags_bitfield (target ?m2) = Num 4" "EPHEMERAL spec_deps = Num 64"
          "flags_resolve spec_deps = Inr"
    by (simp_all add: new_APIMessage_def message_target_def spec_deps_def)
  from s(1) obtain a where a: "resolveData spec_deps ?m1 = Inr a" by (rule succeeds)
  from s(2) obtain b where b: "resolveData spec_deps ?m2 = Inr b" by (rule succeeds)
  from s(3) obtain c where c: "resolveData spec_deps ?i = Inr c" by (rule succeeds)
  from s(4) obtain d where d: "resolveData spec_deps ?c = Inr d" by (rule succeeds)
  from resolveData_flags [OF n(1) a] obtain d1 where d1: "data a = Some d1"
    and p1: "if isMessage ?m1 then
              (if lookup (options ?m1) ''flags'' \<noteq> Null \<and> lookup (options ?m1) ''flags'' \<noteq> Undefined
               then flags_resolve spec_deps (lookup (options ?m1) ''flags'') = Inr (lookup d1 ''flags'')
               else lookup d1 ''flags'' = flags_bitfield (target ?m1))
            else if isInteraction ?m1 \<and> truthy (lookup (options ?m1) ''ephemeral'')
            then lookup d1 ''flags'' = EPHEMERAL spec_deps
            else lookup d1 ''flags'' = Undefined"
    by blast
  from p1 f o t have 1: "lookup (built spec_deps ?m1) ''flags'' = Num 2"
    unfolding built_eq [OF a d1] by simp
  from resolveData_flags [OF n(2) b] obtain d2 where d2: "data b = Some d2"
    and p2: "if isMessage ?m2 then
              (if lookup (options ?m2) ''flags'' \<noteq> Null \<and> lookup (options ?m2) ''flags'' \<noteq> Undefined
               then flags_resolve spec_deps (lookup (options ?m2) ''flags'') = Inr (lookup d2 ''flags'')
               else lookup d2 ''flags'' = flags_bitfield (target ?m2))
            else if isInteraction ?m2 \<and> truthy (lookup (options ?m2) ''ephemeral'')
            then lookup d2 ''flags'' = EPHEMERAL spec_deps
            else lookup d2 ''flags'' = Undefined"
    by blast
  from p2 f o t have 2: "lookup (built spec_deps ?m2) ''flags'' = Num 4"
    unfolding built_eq [OF b d2] by simp
  from resolveData_flags [OF n(3) c] obtain d3 where d3: "data c = Some d3"
    and p3: "if isMessage ?i then
              (if lookup (options ?i) ''flags'' \<noteq> Null \<and> lookup (options ?i) ''flags'' \<noteq> Undefined
               then flags_resolve spec_deps (lookup (options ?i) ''flags'') = Inr (lookup d3 ''flags'')
               else lookup d3 ''flags'' = flags_bitfield (target ?i))
            else if isInteraction ?i \<and> truthy (lookup (options ?i) ''ephemeral'')
            then lookup d3 ''flags'' = EPHEMERAL spec_deps
            else lookup d3 ''flags'' = Undefined"
    by blast
  from p3 f o t have 3: "lookup (built spec_deps ?i) ''flags'' = Num 64"
    unfolding built_eq [OF c d3] by simp
  from resolveData_flags [OF n(4) d] obtain d4 where d4: "data d = Some d4"
    and p4: "if isMessage ?c then
              (if lookup (options ?c) ''flags'' \<noteq> Null \<and> lookup (options ?c) ''flags'' \<noteq> Undefined
               then flags_resolve spec_deps (lookup (options ?c) ''flags'') = Inr (lookup d4 ''flags'')
               else lookup d4 ''flags'' = flags_bitfield (target ?c))
            else if isInteraction ?c \<and> truthy (lookup (options ?c) ''ephemeral'')
            then lookup d4 ''flags'' = EPHEMERAL spec_deps
            else lookup d4 ''flags'' = Undefined"
    by blast
  from p4 f o t have 4: "lookup (built spec_deps ?c) ''flags'' = Undefined"
    unfolding built_eq [OF d d4] by simp
  from 1 2 3 4 show ?thesis by simp
qed

section \<open>Memoisation\<close>

text \<open>
  C9, as amended. \<^verbatim>\<open>data\<close> and \<^verbatim>\<open>files\<close> are computed at most once on an instance:
  \<^verbatim>\<open>resolveData\<close> on an instance that has data and \<^verbatim>\<open>resolveFiles\<close> on one that has files
  return the instance as it is, so a second call returns the stored result whatever the
  collaborators (and the settling order) would now compute. \<^verbatim>\<open>split\<close> called again on
  the instance it has left returns the same instances. \<^verbatim>\<open>split\<close> never changes the options
  or the target of the receiver; it changes its \<^verbatim>\<open>data\<close> only by building the payload
  (what \<^verbatim>\<open>resolveData\<close> does) when there was none, and leaves a built receiver as it is.
\<close>

theorem memoised:
  "(data this \<noteq> None \<longrightarrow> resolveData h this = Inr this) \<and>
   (files this \<noteq> None \<longrightarrow> resolveFiles settled h this = Inr this) \<and>
   (\<forall>this'. resolveData h this = Inr this' \<longrightarrow> resolveData h' this' = Inr this') \<and>
   (\<forall>this'. resolveFiles settled h this = Inr this' \<longrightarrow> resolveFiles settled' h' this' = Inr this') \<and>
   (\<forall>this1 ms. split h this = Inr (this1, ms) \<longrightarrow>
        split h' this1 = Inr (this1, ms) \<and>
        target this1 = target this \<and> options this1 = options this \<and>
        (if data this = None then resolveData h this = Inr this1 else this1 = this))"
proof (intro conjI allI impI)
  assume "data this \<noteq> None"
  then show "resolveData h this = Inr this" by (rule resolveData_built)
next
  assume "files this \<noteq> None"
  then show "resolveFiles settled h this = Inr this" by (simp add: resolveFiles_def)
next
  fix this'
  assume "resolveData h this = Inr this'"
  from resolveData_data [OF this] show "resolveData h' this' = Inr this'"
    by (auto simp add: resolveData_built)
next
  fix this'
  assume "resolveFiles settled h this = Inr this'"
  from resolveFiles_Inr [OF this] show "resolveFiles settled' h' this' = Inr this'"
    by (auto simp add: resolveFiles_def)
next
  fix this1 ms
  assume s: "split h this = Inr (this1, ms)"
  from split_Inr [OF s] obtain d
    where b: "if data this = None then resolveData h this = Inr this1 else this1 = this"
      and d: "data this1 = Some d"
      and ms: "ms = (case lookup d ''content'' of
                   Arr cs \<Rightarrow> map (split_at this1 d cs) [0..<length cs]
                 | _ \<Rightarrow> [this1])"
    by blast
  from b show "if data this = None then resolveData h this = Inr this1 else this1 = this" .
  from b show "target this1 = target this"
    by (auto simp add: resolveData_keeps split: if_splits)
  from b show "options this1 = options this"
    by (auto simp add: resolveData_keeps split: if_splits)
  from split_built [OF d] ms show "split h' this1 = Inr (this1, ms)"
    by simp
qed

text \<open>\<^verbatim>\<open>split\<close> on an instance that was never built stores the built payload in its \<^verbatim>\<open>data\<close>.\<close>

theorem split_builds_counterexample:
  "data (new_APIMessage channel_target [(''content'', Str ''hi'')]) = None \<and>
   \<not> isl (split spec_deps (new_APIMessage channel_target [(''content'', Str ''hi'')])) \<and>
   data (fst (projr (split spec_deps (new_APIMessage channel_target [(''content'', Str ''hi'')]))))
     = Some (built spec_deps (new_APIMessage channel_target [(''content'', Str ''hi'')])) \<and>
   lookup (built spec_deps (new_APIMessage channel_target [(''content'', Str ''hi'')])) ''content'' = Str ''hi''"
  by code_simp

theorem memoised_witness:
  "\<exists>this1 ms. split spec_deps (new_APIMessage channel_target long_message) = Inr (this1, ms) \<and>
      split spec_deps this1 = Inr (this1, ms) \<and> length ms = 2 \<and>
      resolveData spec_deps this1 = Inr this1 \<and>
      options this1 = long_message \<and> target this1 = channel_target"
proof -
  let ?m = "new_APIMessage channel_target long_message"
  have "\<not> isl (split spec_deps ?m)" by code_simp
  then obtain this1 ms where s: "split spec_deps ?m = Inr (this1, ms)"
    by (cases "split spec_deps ?m") auto
  have "map_sum id (\<lambda>(a, ms). length ms) (split spec_deps ?m) = Inr 2" by code_simp
  with s have len: "length ms = 2" by simp
  have n: "data ?m = None" by (simp add: new_APIMessage_def)
  from memoised [of ?m spec_deps "[]" spec_deps "[]"] s n
  have 1: "split spec_deps this1 = Inr (this1, ms)"
    and 2: "target this1 = target ?m" "options this1 = options ?m"
    and 3: "resolveData spec_deps ?m = Inr this1"
    by auto
  from memoised [of ?m spec_deps "[]" spec_deps "[]"] 3
  have 4: "resolveData spec_deps this1 = Inr this1" by blast
  from s 1 2 4 len show ?thesis by (auto simp add: new_APIMessage_def)
qed

section \<open>The user facet\<close>

text \<open>
  C10. \<^verbatim>\<open>resolveData\<close>, \<^verbatim>\<open>resolveFiles\<close> and \<^verbatim>\<open>split\<close> never consult \<^verbatim>\<open>isUser\<close>: of the classes of
  the target they see only the webhook, message and interaction facets. Two targets that
  differ in nothing but their classes and agree on these three facets give the same
  payload, the same files and the same split result, instance for instance. In
  particular a target with only the user facet behaves as a plain channel target with
  the same message collection and client.
\<close>

theorem isUser_not_consulted:
  assumes "isWebhook (retarget cs this) = isWebhook this"
    and "isMessage (retarget cs this) = isMessage this"
    and "isInteraction (retarget cs this) = isInteraction this"
  shows "resolveData h (retarget cs this) = map_sum id (retarget cs) (resolveData h this) \<and>
         resolveFiles settled h (retarget cs this) = map_sum id (retarget cs) (resolveFiles settled h this) \<and>
         split h (retarget cs this) =
           map_sum id (\<lambda>(a, ms). (retarget cs a, map (retarget cs) ms)) (split h this)"
  using retarget_resolveData [OF assms] retarget_resolveFiles [OF assms(1,3)] retarget_split [OF assms]
  by simp

theorem isUser_not_consulted_witness:
  "isUser (retarget [User] (new_APIMessage channel_target long_message)) \<and>
   \<not> isUser (new_APIMessage channel_target long_message) \<and>
   resolveData spec_deps (retarget [User] (new_APIMessage channel_target long_message))
     = map_sum id (retarget [User]) (resolveData spec_deps (new_APIMessage channel_target long_message)) \<and>
   built spec_deps (retarget [User] (new_APIMessage channel_target long_message))
     = built spec_deps (new_APIMessage channel_target long_message)"
proof -
  let ?c = "new_APIMessage channel_target long_message"
  have f: "isWebhook (retarget [User] ?c) = isWebhook ?c"
          "isMessage (retarget [User] ?c) = isMessage ?c"
          "isInteraction (retarget [User] ?c) = isInteraction ?c"
    by (simp_all add: retarget_def new_APIMessage_def channel_target_def isWebhook_def
          isMessage_def isInteraction_def instanceof_def)
  have u: "isUser (retarget [User] ?c)" "\<not> isUser ?c"
    by (simp_all add: retarget_def new_APIMessage_def channel_target_def isUser_def instanceof_def)
  from isUser_not_consulted [OF f, of spec_deps "[]"]
  have r: "resolveData spec_deps (retarget [User] ?c) = map_sum id (retarget [User]) (resolveData spec_deps ?c)"
    by simp
  then have "built spec_deps (retarget [User] ?c) = built spec_deps ?c"
    by (cases "resolveData spec_deps ?c") (simp_all add: built_def)
  with u r show ?thesis by simp
qed

end
